theory Spec2Isabelle
  imports Main "HOL-Library.Sublist" "HOL-Library.List_Lexorder"
begin

section \<open>Text\<close>

text \<open>
  A Python \<open>str\<close> is modelled as a \<open>string\<close>, one \<open>char\<close> per code point, for the
  code points below 256. In that range \<open>str.isspace\<close> holds for the characters listed
  in \<open>whitespace\<close>, and the decimal digits are \<open>0\<close> to \<open>9\<close>.
\<close>

definition whitespace :: "char list" where
  "whitespace = [CHR 0x09, CHR 0x0A, CHR 0x0B, CHR 0x0C, CHR 0x0D,
                 CHR 0x1C, CHR 0x1D, CHR 0x1E, CHR 0x1F, CHR 0x20, CHR 0x85, CHR 0xA0]"

definition is_space :: "char \<Rightarrow> bool" where
  "is_space c = (c \<in> set whitespace)"

text \<open>\<open>s.strip()\<close>\<close>

definition strip :: "string \<Rightarrow> string" where
  "strip s = rev (dropWhile is_space (rev (dropWhile is_space s)))"

text \<open>\<open>s[i:j]\<close> for indices \<open>0 \<le> i\<close>, \<open>0 \<le> j\<close>; \<open>s[i:]\<close> is \<open>drop i s\<close>.\<close>

definition slice :: "string \<Rightarrow> nat \<Rightarrow> nat \<Rightarrow> string" where
  "slice s i j = take (j - i) (drop i s)"

section \<open>Patterns\<close>

text \<open>
  A regular expression is kept in parsed form; the patterns that the program is given
  as strings (the head line template and, within it, the project name) are given in
  this form too. The constructors are the constructs that the program's own patterns
  use: a literal text, a character set \<open>[...]\<close>, the dot, the
  line anchor \<open>^\<close> (the program compiles every pattern with \<open>re.MULTILINE\<close>), sequence,
  alternation, the greedy repetitions \<open>*\<close>, \<open>+\<close> and \<open>?\<close>, a capturing group
  (\<open>Group None\<close> for \<open>(...)\<close>, \<open>Group (Some n)\<close> for \<open>(?P<n>...)\<close>), a backreference
  to the group with a given number and the negative lookahead \<open>(?!...)\<close>.
  \<open>Field f\<close> is a replacement field \<open>{f}\<close> of a template that \<open>str.format\<close> fills in; it
  stands where a pattern can stand.
\<close>

datatype rx =
    Lit string
  | CSet "char list"
  | Dot
  | Bol
  | Field string
  | Seq rx rx
  | Alt rx rx
  | Star rx
  | Plus rx
  | Opt rx
  | Group "string option" rx
  | Backref nat
  | NotAhead rx

fun seqs :: "rx list \<Rightarrow> rx" where
  "seqs [] = Lit []"
| "seqs [r] = r"
| "seqs (r # rs) = Seq r (seqs rs)"

section \<open>Exceptions\<close>

text \<open>
  Every \<open>raise ValueError(...)\<close> of the program is a \<open>ValueError\<close> with one constructor of
  \<open>message\<close> per message text; the constructor's arguments are the values the message
  interpolates (for the two version messages the version strings as given, where the
  program prints their parsed form).
\<close>

datatype message =
    FixIssueTogether
      \<comment> \<open>fix_issue_regex and fix_issue_repl should be used together\<close>
  | StartMarkNotFound string
      \<comment> \<open>Cannot find TOWNCRIER start mark (start_line) in file ...\<close>
  | HeadMarkNotFound rx string
      \<comment> \<open>Cannot find TOWNCRIER version head mark (head_re.pattern) in file 'changes_file'\<close>
  | DistributionOlder string string string
      \<comment> \<open>The distribution version dver is older than fver (from 'changes_file').
          Hint: push git tag with the latest version.\<close>
  | DistributionYounger string string string
      \<comment> \<open>The distribution version dver is younger than fver (from 'changes_file').
          Hint: run 'towncrier' again.\<close>
  | HeadNotATag string
      \<comment> \<open>Git head 'head' doesn't point at a tag\<close>
  | TagMismatch string string
      \<comment> \<open>Git tag 'tag' mismatches with version 'version'\<close>
  | NoVersionSet
      \<comment> \<open>No one of 'version', 'version_file' is set\<close>
  | VersionAmbiguous
      \<comment> \<open>version and version_file arguments are ambiguous\<close>
  | FileDoesNotExist string
      \<comment> \<open>file 'name' doesn't exist\<close>
  | VersionUndetermined string
      \<comment> \<open>Unable to determine version in file 'version_file'\<close>
  | EmptySeparator
      \<comment> \<open>empty separator, raised by \<open>str.partition\<close>\<close>

datatype exn =
    ValueError message
  | KeyError string
      \<comment> \<open>\<open>str.format\<close>: a replacement field without a keyword argument\<close>
  | IndexError
      \<comment> \<open>\<open>Match.group\<close>: no such group\<close>
  | TypeError
      \<comment> \<open>the version parser applied to \<open>None\<close>\<close>
  | InvalidVersion string
      \<comment> \<open>the version parser applied to a string that is no version\<close>
  | ReError
      \<comment> \<open>\<open>re.error\<close>: the pattern does not compile\<close>

section \<open>\<open>str.partition\<close>\<close>

fun str_find :: "string \<Rightarrow> string \<Rightarrow> nat option" where
  "str_find sep [] = (if sep = [] then Some 0 else None)"
| "str_find sep (c # cs) =
     (if prefix sep (c # cs) then Some 0 else map_option Suc (str_find sep cs))"

definition str_partition :: "string \<Rightarrow> string \<Rightarrow> exn + string \<times> string \<times> string" where
  "str_partition s sep =
     (if sep = [] then Inl (ValueError EmptySeparator)
      else case str_find sep s of
             None \<Rightarrow> Inr (s, [], [])
           | Some i \<Rightarrow> Inr (take i s, sep, drop (i + length sep) s))"

section \<open>Regular expressions\<close>

text \<open>The decimal digits: the class \<open>[0-9]\<close>, and the digit escape of \<open>re\<close>.\<close>

definition digits :: "char list" where
  "digits = ''0123456789''"

text \<open>
  Capturing groups are numbered from 1 in the order of their opening parentheses:
  \<open>group_names\<close> lists them in that order, with their names.
\<close>

fun group_names :: "rx \<Rightarrow> string option list" where
  "group_names (Seq a b) = group_names a @ group_names b"
| "group_names (Alt a b) = group_names a @ group_names b"
| "group_names (Star a) = group_names a"
| "group_names (Plus a) = group_names a"
| "group_names (Opt a) = group_names a"
| "group_names (Group nm a) = nm # group_names a"
| "group_names (NotAhead a) = group_names a"
| "group_names _ = []"

definition ngroups :: "rx \<Rightarrow> nat" where
  "ngroups r = length (group_names r)"

subsection \<open>\<open>str.format\<close> on a template\<close>

text \<open>
  \<open>template.format(**kw)\<close>: every field is replaced by its keyword argument, a field
  without one raises \<open>KeyError\<close>. The arguments are inserted as they are.
\<close>

fun format :: "rx \<Rightarrow> (string \<times> rx) list \<Rightarrow> exn + rx" where
  "format (Field f) kw = (case map_of kw f of None \<Rightarrow> Inl (KeyError f) | Some r \<Rightarrow> Inr r)"
| "format (Seq a b) kw =
     (case format a kw of Inl e \<Rightarrow> Inl e
      | Inr a' \<Rightarrow> (case format b kw of Inl e \<Rightarrow> Inl e | Inr b' \<Rightarrow> Inr (Seq a' b')))"
| "format (Alt a b) kw =
     (case format a kw of Inl e \<Rightarrow> Inl e
      | Inr a' \<Rightarrow> (case format b kw of Inl e \<Rightarrow> Inl e | Inr b' \<Rightarrow> Inr (Alt a' b')))"
| "format (Star a) kw = (case format a kw of Inl e \<Rightarrow> Inl e | Inr a' \<Rightarrow> Inr (Star a'))"
| "format (Plus a) kw = (case format a kw of Inl e \<Rightarrow> Inl e | Inr a' \<Rightarrow> Inr (Plus a'))"
| "format (Opt a) kw = (case format a kw of Inl e \<Rightarrow> Inl e | Inr a' \<Rightarrow> Inr (Opt a'))"
| "format (Group nm a) kw =
     (case format a kw of Inl e \<Rightarrow> Inl e | Inr a' \<Rightarrow> Inr (Group nm a'))"
| "format (NotAhead a) kw =
     (case format a kw of Inl e \<Rightarrow> Inl e | Inr a' \<Rightarrow> Inr (NotAhead a'))"
| "format r kw = Inr r"

subsection \<open>\<open>re.compile\<close>\<close>

text \<open>
  Compiling rejects a pattern that names two groups alike, and a backreference to a
  group that is not closed where the reference stands. \<open>backrefs_ok r (n, closed)\<close>
  walks the pattern in text order with the number of groups opened so far and the
  groups closed so far.
\<close>

fun backrefs_ok :: "rx \<Rightarrow> nat \<times> nat list \<Rightarrow> (nat \<times> nat list) option" where
  "backrefs_ok (Backref k) (n, cl) = (if k \<in> set cl then Some (n, cl) else None)"
| "backrefs_ok (Seq a b) st =
     (case backrefs_ok a st of None \<Rightarrow> None | Some st' \<Rightarrow> backrefs_ok b st')"
| "backrefs_ok (Alt a b) st =
     (case backrefs_ok a st of None \<Rightarrow> None | Some st' \<Rightarrow> backrefs_ok b st')"
| "backrefs_ok (Star a) st = backrefs_ok a st"
| "backrefs_ok (Plus a) st = backrefs_ok a st"
| "backrefs_ok (Opt a) st = backrefs_ok a st"
| "backrefs_ok (NotAhead a) st = backrefs_ok a st"
| "backrefs_ok (Group nm a) (n, cl) =
     (case backrefs_ok a (Suc n, cl) of None \<Rightarrow> None
      | Some (n', cl') \<Rightarrow> Some (n', Suc n # cl'))"
| "backrefs_ok r st = Some st"

definition re_compile :: "rx \<Rightarrow> exn + rx" where
  "re_compile r =
     (if distinct (filter (\<lambda>nm. nm \<noteq> None) (group_names r)) \<and> backrefs_ok r (0, []) \<noteq> None
      then Inr r else Inl ReError)"

subsection \<open>Matching\<close>

text \<open>
  A matcher state is the position in the text and the groups captured so far (number,
  start, end; the latest capture first). \<open>run r n s st\<close> lists the states in which the
  backtracking matcher can leave \<open>r\<close> when it enters it in state \<open>st\<close> on the text \<open>s\<close>, in
  the order in which it tries them; \<open>n\<close> is the number of groups opened to the left of
  \<open>r\<close>. The first state of the list is the match that \<open>re\<close> reports. A repetition
  does not enter an iteration that consumes nothing.
\<close>

type_synonym captures = "(nat \<times> nat \<times> nat) list"
type_synonym mstate = "nat \<times> captures"

definition lit_at :: "string \<Rightarrow> string \<Rightarrow> mstate \<Rightarrow> mstate list" where
  "lit_at w s st =
     (if slice s (fst st) (fst st + length w) = w then [(fst st + length w, snd st)] else [])"

definition chr_at :: "(char \<Rightarrow> bool) \<Rightarrow> string \<Rightarrow> mstate \<Rightarrow> mstate list" where
  "chr_at P s st =
     (if fst st < length s \<and> P (s ! fst st) then [(Suc (fst st), snd st)] else [])"

fun weight :: "rx \<Rightarrow> nat" where
  "weight (Seq a b) = Suc (weight a + weight b)"
| "weight (Alt a b) = Suc (weight a + weight b)"
| "weight (Star a) = Suc (weight a)"
| "weight (Plus a) = Suc (Suc (weight a))"
| "weight (Opt a) = Suc (weight a)"
| "weight (Group nm a) = Suc (weight a)"
| "weight (NotAhead a) = Suc (weight a)"
| "weight _ = 0"

function run :: "rx \<Rightarrow> nat \<Rightarrow> string \<Rightarrow> mstate \<Rightarrow> mstate list" where
  "run (Lit w) n s st = lit_at w s st"
| "run (CSet cs) n s st = chr_at (\<lambda>c. c \<in> set cs) s st"
| "run Dot n s st = chr_at (\<lambda>c. c \<noteq> CHR 0x0A) s st"
| "run Bol n s st =
     (if fst st = 0 \<or> (fst st \<le> length s \<and> s ! (fst st - 1) = CHR 0x0A) then [st] else [])"
| "run (Field f) n s st = lit_at (''{'' @ f @ ''}'') s st"
| "run (Seq a b) n s st = concat (map (run b (n + ngroups a) s) (run a n s st))"
| "run (Alt a b) n s st = run a n s st @ run b (n + ngroups a) s st"
| "run (Star a) n s st =
     concat (map (\<lambda>st'. if fst st < fst st' \<and> fst st' \<le> length s
                         then run (Star a) n s st' else [])
                 (run a n s st)) @ [st]"
| "run (Plus a) n s st = concat (map (run (Star a) n s) (run a n s st))"
| "run (Opt a) n s st = run a n s st @ [st]"
| "run (Group nm a) n s st =
     map (\<lambda>st'. (fst st', (Suc n, fst st, fst st') # snd st')) (run a (Suc n) s st)"
| "run (Backref k) n s st =
     (case map_of (snd st) k of
        None \<Rightarrow> []
      | Some (b, e) \<Rightarrow> lit_at (slice s b e) s st)"
| "run (NotAhead a) n s st = (if run a n s st = [] then [st] else [])"
  by pat_completeness auto
termination
  by (relation "measures [\<lambda>(r, n, s, st). weight r, \<lambda>(r, n, s, st). length s - fst st]") auto

text \<open>
  The equations of the two unbounded repetitions unfold without end on a text that is
  not given; they are used by name where a pattern is run on a given text.
\<close>

declare run.simps(8,9) [simp del]

text \<open>A match object: the span of the match and the captured groups.\<close>

record match =
  m_start :: nat
  m_end :: nat
  m_groups :: captures

text \<open>\<open>pattern.match(s)\<close>: a match that starts at position 0.\<close>

definition re_match :: "rx \<Rightarrow> string \<Rightarrow> match option" where
  "re_match r s =
     (case run r 0 s (0, []) of
        [] \<Rightarrow> None
      | st # _ \<Rightarrow> Some \<lparr>m_start = 0, m_end = fst st, m_groups = snd st\<rparr>)"

text \<open>\<open>pattern.search(s, pos)\<close>: the match at the first position from \<open>pos\<close> on that has one.\<close>

fun search_at :: "rx \<Rightarrow> string \<Rightarrow> nat list \<Rightarrow> match option" where
  "search_at r s [] = None"
| "search_at r s (i # is) =
     (case run r 0 s (i, []) of
        [] \<Rightarrow> search_at r s is
      | st # _ \<Rightarrow> Some \<lparr>m_start = i, m_end = fst st, m_groups = snd st\<rparr>)"

definition re_search :: "rx \<Rightarrow> string \<Rightarrow> nat \<Rightarrow> match option" where
  "re_search r s pos = search_at r s [pos ..< Suc (length s)]"

text \<open>
  \<open>match.group(k)\<close> for a group number or a group name: \<open>IndexError\<close> when the pattern has
  no such group, \<open>None\<close> when the group took no part in the match.
\<close>

datatype gref = GNum nat | GName string

fun index_of :: "'a \<Rightarrow> 'a list \<Rightarrow> nat option" where
  "index_of x [] = None"
| "index_of x (y # ys) = (if x = y then Some 0 else map_option Suc (index_of x ys))"

definition group_number :: "rx \<Rightarrow> gref \<Rightarrow> nat option" where
  "group_number r k =
     (case k of
        GNum i \<Rightarrow> (if i \<le> ngroups r then Some i else None)
      | GName nm \<Rightarrow> map_option Suc (index_of (Some nm) (group_names r)))"

definition m_group :: "rx \<Rightarrow> string \<Rightarrow> match \<Rightarrow> gref \<Rightarrow> exn + string option" where
  "m_group r s mt k =
     (case group_number r k of
        None \<Rightarrow> Inl IndexError
      | Some i \<Rightarrow>
          if i = 0 then Inr (Some (slice s (m_start mt) (m_end mt)))
          else Inr (map_option (\<lambda>(b, e). slice s b e) (map_of (m_groups mt) i)))"

section \<open>The version parser\<close>

text \<open>
  \<open>packaging.version.parse\<close> is a library function: the program is modelled over any
  parser \<open>parse_version\<close> into an ordered type, \<open>None\<close> when the library raises
  \<open>InvalidVersion\<close>. \<open>release_version\<close> is an instance for concrete inputs: on a plain
  release version \<open>N(.N)*\<close> it is what the library computes, the numbers compared as
  tuples after dropping trailing zeros; it accepts no other string.
\<close>

fun split_dots :: "string \<Rightarrow> string list" where
  "split_dots [] = [[]]"
| "split_dots (c # cs) =
     (if c = CHR ''.'' then [] # split_dots cs
      else (case split_dots cs of [] \<Rightarrow> [[c]] | w # ws \<Rightarrow> (c # w) # ws))"

definition digit_val :: "char \<Rightarrow> nat" where
  "digit_val c = of_char c - 48"

definition decimal :: "string \<Rightarrow> nat" where
  "decimal w = foldl (\<lambda>n c. 10 * n + digit_val c) 0 w"

definition drop_trailing_zeros :: "nat list \<Rightarrow> nat list" where
  "drop_trailing_zeros ns = rev (dropWhile (\<lambda>n. n = 0) (rev ns))"

definition release_version :: "string \<Rightarrow> nat list option" where
  "release_version v =
     (let parts = split_dots v in
      if \<forall>w \<in> set parts. w \<noteq> [] \<and> set w \<subseteq> set digits
      then Some (drop_trailing_zeros (map decimal parts)) else None)"

section \<open>The program\<close>

record Context =
  ctx_root :: "string \<rightharpoonup> string"
  ctx_version :: string

text \<open>\<open>Context.read_file\<close>; \<open>ctx_root\<close> maps the names of the files under the root to their text.\<close>

definition read_file :: "Context \<Rightarrow> string \<Rightarrow> exn + string" where
  "read_file ctx name =
     (case ctx_root ctx name of
        None \<Rightarrow> Inl (ValueError (FileDoesNotExist name))
      | Some txt \<Rightarrow> Inr txt)"

subsection \<open>The function-based pipeline\<close>

definition check_fix_issue :: "string \<Rightarrow> string \<Rightarrow> exn + unit" where
  "check_fix_issue fix_issue_regex fix_issue_repl =
     (if fix_issue_regex \<noteq> [] \<and> \<not> fix_issue_repl \<noteq> [] \<or>
         \<not> fix_issue_regex \<noteq> [] \<and> fix_issue_repl \<noteq> []
      then Inl (ValueError FixIssueTogether) else Inr ())"

definition check_head :: "string \<Rightarrow> string option \<Rightarrow> exn + unit" where
  "check_head version head =
     (case head of
        None \<Rightarrow> Inr ()
      | Some h \<Rightarrow>
          if h = [] then Inr ()
          else let pre = ''refs/tags/'' in
            if \<not> prefix pre h then Inl (ValueError (HeadNotATag h))
            else let tag = drop (length pre) h in
              if tag \<noteq> version \<and> tag \<noteq> ''v'' @ version
              then Inl (ValueError (TagMismatch tag version))
              else Inr ())"

definition check_changes_version ::
  "(string \<Rightarrow> 'v::order option) \<Rightarrow> string \<Rightarrow> string \<Rightarrow> string \<Rightarrow> exn + unit" where
  "check_changes_version parse_version declared_version found_version changes_file =
     (if declared_version = found_version then Inr ()
      else case parse_version declared_version of
        None \<Rightarrow> Inl (InvalidVersion declared_version)
      | Some dver \<Rightarrow>
          (case parse_version found_version of
             None \<Rightarrow> Inl (InvalidVersion found_version)
           | Some fver \<Rightarrow>
               if dver < fver
               then Inl (ValueError (DistributionOlder declared_version found_version changes_file))
               else Inl (ValueError (DistributionYounger declared_version found_version changes_file))))"

text \<open>
  \<open>VERSION_RE\<close>: the pattern \<open>^(?:__version__|version) *= *\<close> followed by a quote in group 1,
  the characters that are not that quote in group 2, and the quote of group 1 again.
\<close>

definition VERSION_RE :: rx where
  "VERSION_RE =
     seqs [Bol,
           Alt (Lit ''__version__'') (Lit ''version''),
           Star (Lit '' ''), Lit ''='', Star (Lit '' ''),
           Group None (CSet [CHR 0x22, CHR 0x27]),
           Group None (Star (Seq (NotAhead (Backref 1)) Dot)),
           Backref 1]"

definition find_version :: "Context \<Rightarrow> string \<Rightarrow> string \<Rightarrow> exn + string option" where
  "find_version ctx version_file version =
     (if \<not> version \<noteq> [] \<and> \<not> version_file \<noteq> [] then Inl (ValueError NoVersionSet)
      else if version \<noteq> [] then
        (if version_file \<noteq> [] then Inl (ValueError VersionAmbiguous) else Inr (Some version))
      else case read_file ctx version_file of
        Inl e \<Rightarrow> Inl e
      | Inr txt \<Rightarrow>
          (case re_search VERSION_RE txt 0 of
             Some mt \<Rightarrow> m_group VERSION_RE txt mt (GNum 2)
           | None \<Rightarrow> Inl (ValueError (VersionUndetermined version_file))))"

text \<open>
  The keyword arguments of \<open>head_line.format\<close> in \<open>_parse_changes\<close>: the version is
  \<open>(?P<version>[0-9][0-9.abcr]+(\.post[0-9]+)?)\<close>, the date is three runs of digits
  joined by hyphens.
\<close>

definition version_token :: rx where
  "version_token =
     Group (Some ''version'')
       (seqs [CSet digits, Plus (CSet (digits @ ''.abcr'')),
              Opt (Group None (Seq (Lit ''.post'') (Plus (CSet digits))))])"

definition date_token :: rx where
  "date_token = seqs [Plus (CSet digits), Lit ''-'', Plus (CSet digits), Lit ''-'', Plus (CSet digits)]"

text \<open>
  \<open>_parse_changes\<close>. \<open>re_sub\<close> stands for the library's \<open>re.sub\<close> on the issue pattern and
  its replacement, which the program takes as they are given; it is \<open>None\<close> when the
  library raises \<open>re.error\<close>.
\<close>

definition priv_parse_changes ::
  "(string \<Rightarrow> 'v::order option) \<Rightarrow> (string \<Rightarrow> string \<Rightarrow> string \<Rightarrow> string option) \<Rightarrow>
   string \<Rightarrow> string \<Rightarrow> string \<Rightarrow> string \<Rightarrow> rx \<Rightarrow> string \<Rightarrow> string \<Rightarrow> rx \<Rightarrow> exn + string" where
  "priv_parse_changes parse_version re_sub changes changes_file version start_line head_line
       fix_issue_regex fix_issue_repl name =
     (case str_partition changes start_line of
        Inl e \<Rightarrow> Inl e
      | Inr (_, sep, msg) \<Rightarrow>
          if \<not> sep \<noteq> [] then Inl (ValueError (StartMarkNotFound start_line))
          else let msg = strip msg in
            (case format head_line
                    [(''version'', version_token), (''date'', date_token), (''name'', name)] of
               Inl e \<Rightarrow> Inl e
             | Inr pattern \<Rightarrow>
            (case re_compile pattern of
               Inl e \<Rightarrow> Inl e
             | Inr head_re \<Rightarrow>
            (case re_match head_re msg of
               None \<Rightarrow> Inl (ValueError (HeadMarkNotFound head_re changes_file))
             | Some mt \<Rightarrow>
            (case m_group head_re msg mt (GName ''version'') of
               Inl e \<Rightarrow> Inl e
             | Inr found \<Rightarrow>
            (case (case found of
                     None \<Rightarrow> (case parse_version version of
                                 None \<Rightarrow> Inl (InvalidVersion version)
                               | Some _ \<Rightarrow> Inl TypeError)
                   | Some found_version \<Rightarrow>
                       check_changes_version parse_version version found_version changes_file) of
               Inl e \<Rightarrow> Inl e
             | Inr _ \<Rightarrow>
                 let msg = (case re_search head_re msg (m_end mt) of
                              Some mt2 \<Rightarrow> slice msg (m_end mt) (m_start mt2)
                            | None \<Rightarrow> drop (m_end mt) msg)
                 in if fix_issue_regex \<noteq> [] then
                      (case re_sub fix_issue_regex fix_issue_repl msg of
                         None \<Rightarrow> Inl ReError
                       | Some msg' \<Rightarrow> Inr (strip msg'))
                    else Inr (strip msg)))))))"

definition parse_changes ::
  "(string \<Rightarrow> 'v::order option) \<Rightarrow> (string \<Rightarrow> string \<Rightarrow> string \<Rightarrow> string option) \<Rightarrow>
   Context \<Rightarrow> string \<Rightarrow> string \<Rightarrow> rx \<Rightarrow> string \<Rightarrow> string \<Rightarrow> rx \<Rightarrow> exn + string" where
  "parse_changes parse_version re_sub ctx changes_file start_line head_line
       fix_issue_regex fix_issue_repl name =
     (case check_fix_issue fix_issue_regex fix_issue_repl of
        Inl e \<Rightarrow> Inl e
      | Inr _ \<Rightarrow>
          (case read_file ctx changes_file of
             Inl e \<Rightarrow> Inl e
           | Inr changes \<Rightarrow>
               priv_parse_changes parse_version re_sub changes changes_file (ctx_version ctx)
                 start_line head_line fix_issue_regex fix_issue_repl name))"

subsection \<open>The class-based pipeline\<close>

record Parser =
  self_changes_file :: string
  self_name :: rx

definition Parser_check_head :: "Parser \<Rightarrow> string \<Rightarrow> string option \<Rightarrow> exn + unit" where
  "Parser_check_head self version head =
     (case head of
        None \<Rightarrow> Inr ()
      | Some h \<Rightarrow>
          if h = [] then Inr ()
          else let pre = ''refs/tags/'' in
            if \<not> prefix pre h then Inl (ValueError (HeadNotATag h))
            else let tag = drop (length pre) h in
              if tag \<noteq> version \<and> tag \<noteq> ''v'' @ version
              then Inl (ValueError (TagMismatch tag version))
              else Inr ())"

definition Parser_check_changes_version ::
  "(string \<Rightarrow> 'v::order option) \<Rightarrow> Parser \<Rightarrow> string \<Rightarrow> string \<Rightarrow> exn + unit" where
  "Parser_check_changes_version parse_version self declared_version found_version =
     (if declared_version = found_version then Inr ()
      else case parse_version declared_version of
        None \<Rightarrow> Inl (InvalidVersion declared_version)
      | Some dver \<Rightarrow>
          (case parse_version found_version of
             None \<Rightarrow> Inl (InvalidVersion found_version)
           | Some fver \<Rightarrow>
               if dver < fver
               then Inl (ValueError (DistributionOlder declared_version found_version
                                       (self_changes_file self)))
               else Inl (ValueError (DistributionYounger declared_version found_version
                                       (self_changes_file self)))))"

definition Parser_find_version ::
  "Parser \<Rightarrow> Context \<Rightarrow> string \<Rightarrow> string \<Rightarrow> exn + string option" where
  "Parser_find_version self ctx version_file version =
     (if \<not> version \<noteq> [] \<and> \<not> version_file \<noteq> [] then Inl (ValueError NoVersionSet)
      else if version \<noteq> [] then
        (if version_file \<noteq> [] then Inl (ValueError VersionAmbiguous) else Inr (Some version))
      else case read_file ctx version_file of
        Inl e \<Rightarrow> Inl e
      | Inr txt \<Rightarrow>
          (case re_search VERSION_RE txt 0 of
             Some mt \<Rightarrow> m_group VERSION_RE txt mt (GNum 2)
           | None \<Rightarrow> Inl (ValueError (VersionUndetermined version_file))))"

text \<open>
  In \<open>Parser.parse\<close> the version argument of \<open>head_line.format\<close> is the version group
  between a literal \<open>[\<close> and a literal \<open>]\<close>.
\<close>

definition bracketed_version_token :: rx where
  "bracketed_version_token = seqs [Lit ''['', version_token, Lit '']'']"

definition Parser_parse ::
  "(string \<Rightarrow> 'v::order option) \<Rightarrow> (string \<Rightarrow> string \<Rightarrow> string \<Rightarrow> string option) \<Rightarrow>
   Parser \<Rightarrow> Context \<Rightarrow> string \<Rightarrow> rx \<Rightarrow> string \<Rightarrow> string \<Rightarrow> string \<Rightarrow> exn + string" where
  "Parser_parse parse_version re_sub self ctx start_line head_line
       fix_issue_regex fix_issue_repl input_check_ref =
     (if fix_issue_regex \<noteq> [] \<and> \<not> fix_issue_repl \<noteq> [] \<or>
         \<not> fix_issue_regex \<noteq> [] \<and> fix_issue_repl \<noteq> []
      then Inl (ValueError FixIssueTogether)
      else case Parser_check_head self (ctx_version ctx) (Some input_check_ref) of
        Inl e \<Rightarrow> Inl e
      | Inr _ \<Rightarrow>
      (case read_file ctx (self_changes_file self) of
        Inl e \<Rightarrow> Inl e
      | Inr changes \<Rightarrow>
      (case str_partition changes start_line of
        Inl e \<Rightarrow> Inl e
      | Inr (_, sep, msg) \<Rightarrow>
          if \<not> sep \<noteq> [] then Inl (ValueError (StartMarkNotFound start_line))
          else let msg = strip msg in
            (case format head_line
                    [(''version'', bracketed_version_token), (''date'', date_token),
                     (''name'', self_name self)] of
               Inl e \<Rightarrow> Inl e
             | Inr pattern \<Rightarrow>
            (case re_compile pattern of
               Inl e \<Rightarrow> Inl e
             | Inr head_re \<Rightarrow>
            (case re_match head_re msg of
               None \<Rightarrow> Inl (ValueError (HeadMarkNotFound head_re (self_changes_file self)))
             | Some mt \<Rightarrow>
            (case m_group head_re msg mt (GName ''version'') of
               Inl e \<Rightarrow> Inl e
             | Inr found \<Rightarrow>
            (case (case found of
                     None \<Rightarrow> (case parse_version (ctx_version ctx) of
                                 None \<Rightarrow> Inl (InvalidVersion (ctx_version ctx))
                               | Some _ \<Rightarrow> Inl TypeError)
                   | Some found_version \<Rightarrow>
                       Parser_check_changes_version parse_version self (ctx_version ctx)
                         found_version) of
               Inl e \<Rightarrow> Inl e
             | Inr _ \<Rightarrow>
                 let msg = (case re_search head_re msg (m_end mt) of
                              Some mt2 \<Rightarrow> slice msg (m_end mt) (m_start mt2)
                            | None \<Rightarrow> drop (m_end mt) msg)
                 in if fix_issue_regex \<noteq> [] then
                      (case re_sub fix_issue_regex fix_issue_repl msg of
                         None \<Rightarrow> Inl ReError
                       | Some msg' \<Rightarrow> Inr (strip msg'))
                    else Inr (strip msg)))))))))"

subsection \<open>Templates of the two pipelines\<close>

text \<open>
  \<open>bracket_version\<close> puts every version field of a template between a literal \<open>[\<close>
  and a literal \<open>]\<close>; it is used to relate the two pipelines.
\<close>

fun bracket_version :: "rx \<Rightarrow> rx" where
  "bracket_version (Field f) =
     (if f = ''version'' then seqs [Lit ''['', Field ''version'', Lit '']''] else Field f)"
| "bracket_version (Seq a b) = Seq (bracket_version a) (bracket_version b)"
| "bracket_version (Alt a b) = Alt (bracket_version a) (bracket_version b)"
| "bracket_version (Star a) = Star (bracket_version a)"
| "bracket_version (Plus a) = Plus (bracket_version a)"
| "bracket_version (Opt a) = Opt (bracket_version a)"
| "bracket_version (Group nm a) = Group nm (bracket_version a)"
| "bracket_version (NotAhead a) = NotAhead (bracket_version a)"
| "bracket_version r = r"


subsection \<open>Assignments in a version file\<close>

text \<open>
  The property of a version file that the statement about \<open>find_version\<close> is about:
  \<open>assigns txt i v\<close> says that at position \<open>i\<close> of the text a line begins that assigns
  the quoted value \<open>v\<close> to \<open>__version__\<close> or \<open>version\<close>.
\<close>

definition assigns :: "string \<Rightarrow> nat \<Rightarrow> string \<Rightarrow> bool" where
  "assigns txt i v \<longleftrightarrow>
     (i = 0 \<or> txt ! (i - 1) = CHR 0x0A) \<and>
     (\<exists>nm s1 s2 q r.
        drop i txt = nm @ s1 @ ''='' @ s2 @ q # v @ q # r \<and>
        (nm = ''__version__'' \<or> nm = ''version'') \<and>
        set s1 \<subseteq> {CHR '' ''} \<and> set s2 \<subseteq> {CHR '' ''} \<and>
        (q = CHR 0x22 \<or> q = CHR 0x27) \<and> q \<notin> set v \<and> CHR 0x0A \<notin> set v)"


section \<open>Facts about the text operations\<close>

lemma str_find_None: "str_find sep s = None \<longleftrightarrow> \<not> sublist sep s"
  by (induction s) (auto simp: sublist_Cons_right)

lemma str_find_first:
  "(\<forall>j<length pre. \<not> prefix sep (drop j (pre @ sep @ post))) \<Longrightarrow>
   str_find sep (pre @ sep @ post) = Some (length pre)"
proof (induction pre)
  case Nil
  have "prefix sep (sep @ post)" by simp
  then show ?case by (cases "sep @ post") auto
next
  case (Cons c pre)
  have "\<not> prefix sep (drop 0 ((c # pre) @ sep @ post))"
    using Cons.prems by blast
  moreover have "\<forall>j<length pre. \<not> prefix sep (drop j (pre @ sep @ post))"
  proof (intro allI impI)
    fix j assume "j < length pre"
    then have "\<not> prefix sep (drop (Suc j) ((c # pre) @ sep @ post))"
      using Cons.prems by (metis Suc_less_eq length_Cons)
    then show "\<not> prefix sep (drop j (pre @ sep @ post))" by simp
  qed
  ultimately show ?case using Cons.IH by simp
qed

lemma str_find_Some:
  "str_find sep s = Some i \<Longrightarrow>
   s = take i s @ sep @ drop (i + length sep) s \<and> (\<forall>j<i. \<not> prefix sep (drop j s))"
proof (induction s arbitrary: i)
  case Nil
  then show ?case by (auto split: if_splits)
next
  case (Cons c cs)
  show ?case
  proof (cases "prefix sep (c # cs)")
    case True
    then have "i = 0" using Cons.prems by simp
    moreover obtain zs where "c # cs = sep @ zs" using True by (auto simp: prefix_def)
    ultimately show ?thesis by simp
  next
    case False
    then obtain k where k: "str_find sep cs = Some k" "i = Suc k"
      using Cons.prems by auto
    from Cons.IH[OF k(1)] have ih: "cs = take k cs @ sep @ drop (k + length sep) cs"
      "\<forall>j<k. \<not> prefix sep (drop j cs)" by auto
    have "\<forall>j<i. \<not> prefix sep (drop j (c # cs))"
    proof (intro allI impI)
      fix j assume "j < i"
      show "\<not> prefix sep (drop j (c # cs))"
      proof (cases j)
        case 0 then show ?thesis using False by simp
      next
        case (Suc j') then show ?thesis using ih(2) \<open>j < i\<close> k(2) by simp
      qed
    qed
    moreover have "c # cs = take i (c # cs) @ sep @ drop (i + length sep) (c # cs)"
      using ih(1) k(2) by simp
    ultimately show ?thesis by blast
  qed
qed

lemma dropWhile_id: "(xs \<noteq> [] \<Longrightarrow> \<not> P (hd xs)) \<Longrightarrow> dropWhile P xs = xs"
  by (cases xs) auto

lemma strip_strip: "strip (strip s) = strip s"
proof -
  let ?t = "dropWhile is_space s"
  let ?u = "rev (dropWhile is_space (rev ?t))"
  have u: "strip s = ?u" by (simp add: strip_def)
  have "dropWhile is_space ?u = ?u"
  proof (rule dropWhile_id)
    assume ne: "?u \<noteq> []"
    then have "?t \<noteq> []" by (metis dropWhile.simps(1) rev.simps(1))
    then have nsp: "\<not> is_space (hd ?t)" by (metis hd_dropWhile)
    have "dropWhile is_space (rev ?t) = drop (length (takeWhile is_space (rev ?t))) (rev ?t)"
      by (simp add: dropWhile_eq_drop)
    then have "?u = take (length ?t - length (takeWhile is_space (rev ?t))) ?t"
      by (simp add: rev_drop)
    then have "hd ?u = hd ?t" using ne by (metis hd_take take_eq_Nil2 not_gr_zero)
    then show "\<not> is_space (hd ?u)" using nsp by simp
  qed
  moreover have "dropWhile is_space (rev ?u) = rev ?u"
    by (simp add: dropWhile_idem)
  ultimately show ?thesis
    unfolding u by (simp add: strip_def)
qed

lemma strip_is_slice: "\<exists>a b. a \<le> b \<and> b \<le> length s \<and> strip s = slice s a b"
proof -
  let ?t = "dropWhile is_space s"
  let ?a = "length (takeWhile is_space s)"
  let ?k = "length (takeWhile is_space (rev ?t))"
  have t: "?t = drop ?a s" by (simp add: dropWhile_eq_drop)
  have "dropWhile is_space (rev ?t) = drop ?k (rev ?t)" by (simp add: dropWhile_eq_drop)
  then have "strip s = rev (drop ?k (rev ?t))" by (simp add: strip_def)
  also have "\<dots> = take (length ?t - ?k) ?t" by (simp add: rev_drop)
  finally have "strip s = slice s ?a (?a + (length ?t - ?k))"
    by (simp add: slice_def t)
  moreover have "?a + (length ?t - ?k) \<le> length s"
    using t by (metis add_diff_cancel_left' diff_le_self length_drop length_takeWhile_le
        le_add_diff_inverse nat_add_left_cancel_le order_trans)
  ultimately show ?thesis by (metis le_add1)
qed

lemma str_partition_first:
  assumes "start_line \<noteq> []" "\<forall>j<length pre. \<not> prefix start_line (drop j (pre @ start_line @ post))"
  shows "str_partition (pre @ start_line @ post) start_line = Inr (pre, start_line, post)"
  using assms str_find_first[of pre start_line post] by (simp add: str_partition_def)

lemma str_partition_cases:
  "str_partition s sep = Inl e \<longleftrightarrow> sep = [] \<and> e = ValueError EmptySeparator"
  "str_partition s sep = Inr (a, m, b) \<Longrightarrow> (m = [] \<longleftrightarrow> \<not> sublist sep s)"
  using str_find_None[of sep s]
  by (auto simp: str_partition_def split: option.splits if_splits)

lemma slice_slice:
  "b \<le> j - i \<Longrightarrow> slice (slice s i j) a b = slice s (i + a) (i + b)"
  by (auto simp: slice_def drop_take min_def add.commute)

lemma strip_slice_bounds:
  assumes "i \<le> j"
  shows "\<exists>a b. i \<le> a \<and> a \<le> b \<and> b \<le> j \<and> strip (slice s i j) = slice s a b"
proof -
  obtain a b where ab: "a \<le> b" "b \<le> length (slice s i j)" "strip (slice s i j) = slice (slice s i j) a b"
    using strip_is_slice by blast
  have len: "length (slice s i j) \<le> j - i" by (simp add: slice_def)
  then have "slice (slice s i j) a b = slice s (i + a) (i + b)"
    using ab(2) by (intro slice_slice) simp
  moreover have "i + b \<le> j" using ab(2) len assms by simp
  ultimately show ?thesis using ab by (metis le_add1 nat_add_left_cancel_le)
qed

section \<open>Facts about searching and about the two pipelines\<close>

lemma Parser_check_head_eq: "Parser_check_head self version head = check_head version head"
  by (simp add: Parser_check_head_def check_head_def)

lemma Parser_check_changes_version_eq:
  "Parser_check_changes_version parse_version self declared found =
   check_changes_version parse_version declared found (self_changes_file self)"
  by (simp add: Parser_check_changes_version_def check_changes_version_def)

lemma release_version_simps:
  "release_version ''1.0.0'' = Some [1]"
  "release_version ''1.0'' = Some [1]"
  "release_version ''0.9.0'' = Some [0, 9]"
  by (simp_all add: release_version_def decimal_def digit_val_def digits_def
        drop_trailing_zeros_def)

lemma format_error: "format r kw = Inl e \<Longrightarrow> \<exists>f. e = KeyError f"
  by (induction r kw arbitrary: e rule: format.induct) (auto split: option.splits sum.splits)

lemma format_bracket_version:
  "format (bracket_version h) [(''version'', v), (''date'', d), (''name'', n)] =
   format h [(''version'', seqs [Lit ''['', v, Lit '']'']), (''date'', d), (''name'', n)]"
  by (induction h) (auto split: sum.splits)

lemma Parser_parse_via_function:
  "Parser_parse pv sub self ctx start_line head_line fix_issue_regex fix_issue_repl ref =
     (if (fix_issue_regex = []) \<noteq> (fix_issue_repl = []) then Inl (ValueError FixIssueTogether)
      else case Parser_check_head self (ctx_version ctx) (Some ref) of
        Inl e \<Rightarrow> Inl e
      | Inr _ \<Rightarrow>
          (case read_file ctx (self_changes_file self) of
             Inl e \<Rightarrow> Inl e
           | Inr changes \<Rightarrow>
               priv_parse_changes pv sub changes (self_changes_file self) (ctx_version ctx)
                 start_line (bracket_version head_line) fix_issue_regex fix_issue_repl
                 (self_name self)))"
  unfolding Parser_parse_def priv_parse_changes_def format_bracket_version
    bracketed_version_token_def Parser_check_changes_version_eq
  by (auto split: sum.splits)

lemma search_at_None: "search_at r s is = None \<longleftrightarrow> (\<forall>i \<in> set is. run r 0 s (i, []) = [])"
  by (induction "is") (auto split: list.splits)

lemma search_at_first:
  "\<forall>j \<in> set ps. run r 0 s (j, []) = [] \<Longrightarrow> run r 0 s (i, []) = st # sts \<Longrightarrow>
   search_at r s (ps @ i # qs) = Some \<lparr>m_start = i, m_end = fst st, m_groups = snd st\<rparr>"
  by (induction ps) auto

lemma re_search_None:
  "re_search r s pos = None \<longleftrightarrow> (\<forall>i. pos \<le> i \<and> i \<le> length s \<longrightarrow> run r 0 s (i, []) = [])"
  by (auto simp: re_search_def search_at_None)

lemma re_search_first:
  assumes "pos \<le> i" "i \<le> length s" "\<forall>j. pos \<le> j \<and> j < i \<longrightarrow> run r 0 s (j, []) = []"
    "run r 0 s (i, []) = st # sts"
  shows "re_search r s pos = Some \<lparr>m_start = i, m_end = fst st, m_groups = snd st\<rparr>"
proof -
  have "[pos ..< Suc (length s)] = [pos ..< i] @ [i ..< Suc (length s)]"
    using upt_add_eq_append[of pos i "Suc (length s) - i"] assms(1,2) by simp
  moreover have "[i ..< Suc (length s)] = i # [Suc i ..< Suc (length s)]"
    using assms(2) by (simp add: upt_conv_Cons)
  ultimately have "[pos ..< Suc (length s)] = [pos ..< i] @ i # [Suc i ..< Suc (length s)]"
    by simp
  then show ?thesis
    unfolding re_search_def using search_at_first[of "[pos ..< i]" r s i st sts] assms(3,4)
    by simp
qed

lemma priv_parse_changes_found:
  fixes parse_version :: "string \<Rightarrow> 'v::order option"
  assumes "str_partition changes start_line = Inr (pre, sep, rest)" "sep \<noteq> []"
    and "format head_line [(''version'', version_token), (''date'', date_token), (''name'', name)]
           = Inr pattern"
    and "re_compile pattern = Inr head_re"
    and "re_match head_re (strip rest) = Some mt"
    and "m_group head_re (strip rest) mt (GName ''version'') = Inr (Some version)"
  shows "priv_parse_changes parse_version re_sub changes changes_file version start_line head_line
           fix_issue_regex fix_issue_repl name =
         (let body = (case re_search head_re (strip rest) (m_end mt) of
                        Some mt2 \<Rightarrow> slice (strip rest) (m_end mt) (m_start mt2)
                      | None \<Rightarrow> drop (m_end mt) (strip rest))
          in if fix_issue_regex \<noteq> [] then
               (case re_sub fix_issue_regex fix_issue_repl body of
                  None \<Rightarrow> Inl ReError
                | Some body' \<Rightarrow> Inr (strip body'))
             else Inr (strip body))"
  using assms by (simp add: priv_parse_changes_def check_changes_version_def Let_def)

lemma Parser_parse_bracketed:
  assumes "fix_issue_regex = [] \<longleftrightarrow> fix_issue_repl = []"
    and "read_file ctx (self_changes_file self) = Inr changes"
  shows "Parser_parse parse_version re_sub self ctx start_line head_line
           fix_issue_regex fix_issue_repl [] =
         priv_parse_changes parse_version re_sub changes (self_changes_file self) (ctx_version ctx)
           start_line (bracket_version head_line) fix_issue_regex fix_issue_repl (self_name self)"
  using assms by (simp add: Parser_parse_via_function Parser_check_head_eq check_head_def)


lemma priv_parse_changes_not_start_mark:
  fixes parse_version :: "string \<Rightarrow> 'v::order option"
  assumes "str_partition changes start_line = Inr (a, sep, msg)" "sep \<noteq> []"
  shows "priv_parse_changes parse_version re_sub changes changes_file version start_line head_line
           fix_issue_regex fix_issue_repl name \<noteq> Inl (ValueError (StartMarkNotFound x))"
  using assms
  by (auto simp: priv_parse_changes_def Let_def re_compile_def m_group_def
        check_changes_version_def
        split: sum.splits option.splits if_splits dest: format_error)

lemma priv_parse_changes_start_mark_iff:
  fixes parse_version :: "string \<Rightarrow> 'v::order option"
  shows "(\<exists>x. priv_parse_changes parse_version re_sub changes changes_file version start_line
            head_line fix_issue_regex fix_issue_repl name = Inl (ValueError (StartMarkNotFound x)))
         \<longleftrightarrow> \<not> sublist start_line changes"
proof (cases "str_partition changes start_line")
  case (Inl e)
  then have "start_line = []" "e = ValueError EmptySeparator"
    by (auto simp: str_partition_cases)
  then show ?thesis using Inl by (simp add: priv_parse_changes_def)
next
  case (Inr t)
  obtain a sep msg where t: "t = (a, sep, msg)" by (cases t)
  have sep: "sep = [] \<longleftrightarrow> \<not> sublist start_line changes"
    using Inr t str_partition_cases(2) by blast
  show ?thesis
  proof (cases "sep = []")
    case True
    then show ?thesis using Inr t sep by (simp add: priv_parse_changes_def)
  next
    case False
    then show ?thesis
      using priv_parse_changes_not_start_mark[of changes start_line a sep msg] Inr t sep
      by blast
  qed
qed

lemma priv_parse_changes_same_remainder:
  fixes parse_version :: "string \<Rightarrow> 'v::order option"
  assumes "str_partition c1 start_line = Inr (a1, start_line, r1)"
    "str_partition c2 start_line = Inr (a2, start_line, r2)" "strip r1 = strip r2"
  shows "priv_parse_changes parse_version re_sub c1 changes_file version start_line head_line
           fix_issue_regex fix_issue_repl name =
         priv_parse_changes parse_version re_sub c2 changes_file version start_line head_line
           fix_issue_regex fix_issue_repl name"
  using assms by (simp add: priv_parse_changes_def)

lemma priv_parse_changes_head_mark_iff:
  fixes parse_version :: "string \<Rightarrow> 'v::order option"
  assumes "str_partition changes start_line = Inr (a, sep, rest)" "sep \<noteq> []"
    and "format head_line [(''version'', version_token), (''date'', date_token), (''name'', name)]
           = Inr pattern"
    and "re_compile pattern = Inr head_re"
  shows "priv_parse_changes parse_version re_sub changes changes_file version start_line head_line
           fix_issue_regex fix_issue_repl name = Inl (ValueError (HeadMarkNotFound head_re changes_file))
         \<longleftrightarrow> re_match head_re (strip rest) = None"
  using assms
  by (auto simp: priv_parse_changes_def Let_def m_group_def check_changes_version_def
        split: sum.splits option.splits if_splits)

lemma priv_parse_changes_identity_sub:
  fixes parse_version :: "string \<Rightarrow> 'v::order option"
  shows "priv_parse_changes parse_version re_sub changes changes_file version start_line head_line
           [] [] name =
         priv_parse_changes parse_version (\<lambda>_ _ body. Some body) changes changes_file version
           start_line head_line fix_issue_regex fix_issue_repl name"
  by (simp add: priv_parse_changes_def Let_def split: sum.splits option.splits prod.splits)

lemma priv_parse_changes_note:
  fixes parse_version :: "string \<Rightarrow> 'v::order option"
  assumes "priv_parse_changes parse_version re_sub changes changes_file version start_line
             head_line [] [] name = Inr note"
  shows "\<exists>a rest head_re mt.
           str_partition changes start_line = Inr (a, start_line, rest) \<and>
           format head_line
             [(''version'', version_token), (''date'', date_token), (''name'', name)] = Inr head_re \<and>
           re_match head_re (strip rest) = Some mt \<and>
           note = strip (case re_search head_re (strip rest) (m_end mt) of
                           Some mt2 \<Rightarrow> slice (strip rest) (m_end mt) (m_start mt2)
                         | None \<Rightarrow> drop (m_end mt) (strip rest))"
proof -
  obtain a sep rest where p: "str_partition changes start_line = Inr (a, sep, rest)"
    using assms by (auto simp: priv_parse_changes_def split: sum.splits)
  have sep: "sep = start_line"
    using p assms
    by (auto simp: str_partition_def priv_parse_changes_def split: if_splits option.splits)
  show ?thesis
    using assms p sep
    by (auto simp: priv_parse_changes_def Let_def re_compile_def
          split: sum.splits option.splits if_splits)
qed


lemmas eval_defs =
  str_partition_def strip_def is_space_def whitespace_def version_token_def date_token_def
  digits_def re_compile_def re_match_def re_search_def lit_at_def chr_at_def slice_def
  ngroups_def m_group_def group_number_def check_changes_version_def run.simps(8,9)


section \<open>The section between the headings\<close>

text \<open>
  Claim C1, as amended. Let a non-empty start marker occur in the changelog, first at
  the end of \<open>pre\<close>, and let \<open>msg\<close> be the trimmed text after it. Let the instantiated
  heading pattern match at the start of \<open>msg\<close> (the match \<open>m1\<close>) with a version group equal
  to the declared version, and let \<open>i2\<close> be the first position from the end of \<open>m1\<close> on at
  which the pattern matches again. Then extraction without a fix-issue substitution
  returns exactly the text of \<open>msg\<close> from the end of \<open>m1\<close> up to \<open>i2\<close>, trimmed; this result
  is a piece of \<open>msg\<close> that lies between the end of \<open>m1\<close> and \<open>i2\<close>, so nothing at or after
  the start of the second heading is in it. With a fix-issue substitution the result
  is the substituted text, trimmed. The class-based extractor returns the same note
  when its template, with the version fields in brackets, is the template here.
\<close>

theorem section_between_two_headings:
  fixes parse_version :: "string \<Rightarrow> 'v::order option"
  assumes mark: "start_line \<noteq> []" "changes = pre @ start_line @ rest"
      "\<forall>j<length pre. \<not> prefix start_line (drop j changes)"
    and pat: "format head_line
                [(''version'', version_token), (''date'', date_token), (''name'', name)]
              = Inr pattern"
      "re_compile pattern = Inr head_re"
    and first: "re_match head_re (strip rest) = Some m1"
    and second: "m_end m1 \<le> i2" "i2 \<le> length (strip rest)"
      "run head_re 0 (strip rest) (i2, []) \<noteq> []"
      "\<forall>j. m_end m1 \<le> j \<and> j < i2 \<longrightarrow> run head_re 0 (strip rest) (j, []) = []"
    and version: "m_group head_re (strip rest) m1 (GName ''version'') = Inr (Some version)"
  shows "priv_parse_changes parse_version re_sub changes changes_file version start_line head_line
           [] [] name = Inr (strip (slice (strip rest) (m_end m1) i2)) \<and>
         (\<exists>a b. m_end m1 \<le> a \<and> a \<le> b \<and> b \<le> i2 \<and>
                strip (slice (strip rest) (m_end m1) i2) = slice (strip rest) a b) \<and>
         (fix_issue_regex \<noteq> [] \<longrightarrow>
            priv_parse_changes parse_version re_sub changes changes_file version start_line
              head_line fix_issue_regex fix_issue_repl name =
            (case re_sub fix_issue_regex fix_issue_repl (slice (strip rest) (m_end m1) i2) of
               None \<Rightarrow> Inl ReError
             | Some body \<Rightarrow> Inr (strip body))) \<and>
         (\<forall>template self ctx.
            head_line = bracket_version template \<and>
            read_file ctx (self_changes_file self) = Inr changes \<and>
            self_changes_file self = changes_file \<and> ctx_version ctx = version \<and>
            self_name self = name \<longrightarrow>
            Parser_parse parse_version re_sub self ctx start_line template [] [] [] =
              Inr (strip (slice (strip rest) (m_end m1) i2)))"
proof -
  have part: "str_partition changes start_line = Inr (pre, start_line, rest)"
    using mark str_partition_first by simp
  obtain st sts where st: "run head_re 0 (strip rest) (i2, []) = st # sts"
    using second(3) by (cases "run head_re 0 (strip rest) (i2, [])") auto
  have search: "re_search head_re (strip rest) (m_end m1) =
                  Some \<lparr>m_start = i2, m_end = fst st, m_groups = snd st\<rparr>"
    using re_search_first[OF second(1,2,4) st] .
  have found: "priv_parse_changes parse_version re_sub changes changes_file version start_line
                 head_line fr fp name =
               (if fr \<noteq> [] then
                  (case re_sub fr fp (slice (strip rest) (m_end m1) i2) of
                     None \<Rightarrow> Inl ReError
                   | Some body' \<Rightarrow> Inr (strip body'))
                else Inr (strip (slice (strip rest) (m_end m1) i2)))" for fr fp
    using priv_parse_changes_found[OF part mark(1) pat first version, of parse_version re_sub
            changes_file fr fp]
    by (simp add: search)
  have cls: "Parser_parse parse_version re_sub self ctx start_line template [] [] [] =
               Inr (strip (slice (strip rest) (m_end m1) i2))"
    if "head_line = bracket_version template \<and>
        read_file ctx (self_changes_file self) = Inr changes \<and>
        self_changes_file self = changes_file \<and> ctx_version ctx = version \<and>
        self_name self = name" for template self ctx
    using that found[of "[]" "[]"]
      Parser_parse_bracketed[of "[]" "[]" ctx self changes parse_version re_sub start_line template]
    by auto
  have both: "\<forall>template self ctx.
            head_line = bracket_version template \<and>
            read_file ctx (self_changes_file self) = Inr changes \<and>
            self_changes_file self = changes_file \<and> ctx_version ctx = version \<and>
            self_name self = name \<longrightarrow>
            Parser_parse parse_version re_sub self ctx start_line template [] [] [] =
              Inr (strip (slice (strip rest) (m_end m1) i2))"
    using cls by blast
  show ?thesis
    using found[of "[]" "[]"] found[of fix_issue_regex fix_issue_repl]
      strip_slice_bounds[OF second(1), of "strip rest"] both
    by simp
qed


theorem section_between_two_headings_witness:
  "priv_parse_changes release_version (\<lambda>_ _ body. Some body)
     ''# S\<newline>\<newline>## 1.0\<newline>A\<newline>## 0.9\<newline>B'' ''CHANGES.md'' ''1.0'' ''S''
     (Seq (Lit ''## '') (Field ''version'')) [] [] (Lit ''x'') = Inr ''A'' \<and>
   strip (slice ''## 1.0\<newline>A\<newline>## 0.9\<newline>B'' 6 9) = ''A''"
proof -
  let ?rest = "''\<newline>\<newline>## 1.0\<newline>A\<newline>## 0.9\<newline>B''"
  let ?msg = "''## 1.0\<newline>A\<newline>## 0.9\<newline>B''"
  let ?re = "Seq (Lit ''## '') version_token"
  let ?m1 = "\<lparr>m_start = 0, m_end = 6, m_groups = [(1, 3, 6)]\<rparr>"
  have msg: "strip ?rest = ?msg" by (simp add: eval_defs)
  have h1: "''S'' \<noteq> []" by simp
  have h2: "''# S\<newline>\<newline>## 1.0\<newline>A\<newline>## 0.9\<newline>B'' = ''# '' @ ''S'' @ ?rest" by simp
  have h3: "\<forall>j<length ''# ''. \<not> prefix ''S'' (drop j ''# S\<newline>\<newline>## 1.0\<newline>A\<newline>## 0.9\<newline>B'')"
  proof (intro allI impI)
    fix j :: nat assume "j < length ''# ''"
    then have "j = 0 \<or> j = 1" by auto
    then show "\<not> prefix ''S'' (drop j ''# S\<newline>\<newline>## 1.0\<newline>A\<newline>## 0.9\<newline>B'')"
      by auto
  qed
  have h4: "format (Seq (Lit ''## '') (Field ''version''))
              [(''version'', version_token), (''date'', date_token), (''name'', Lit ''x'')] = Inr ?re"
    by simp
  have h5: "re_compile ?re = Inr ?re" by (simp add: eval_defs)
  have h6: "re_match ?re (strip ?rest) = Some ?m1"
    unfolding msg by (simp add: eval_defs)
  have h7: "m_end ?m1 \<le> 9" by simp
  have h8: "9 \<le> length (strip ?rest)" unfolding msg by simp
  have h9: "run ?re 0 (strip ?rest) (9, []) \<noteq> []" unfolding msg by (simp add: eval_defs)
  have no: "run ?re 0 ?msg (6, []) = []" "run ?re 0 ?msg (7, []) = []"
    "run ?re 0 ?msg (8, []) = []"
    by (simp_all add: eval_defs)
  have h10: "\<forall>j. m_end ?m1 \<le> j \<and> j < 9 \<longrightarrow> run ?re 0 (strip ?rest) (j, []) = []"
    unfolding msg
  proof (intro allI impI)
    fix j :: nat assume "m_end ?m1 \<le> j \<and> j < 9"
    then consider "j = 6" | "j = 7" | "j = 8" by fastforce
    then show "run ?re 0 ?msg (j, []) = []"
    proof cases
      case 1 show ?thesis unfolding 1 by (rule no(1))
    next
      case 2 show ?thesis unfolding 2 by (rule no(2))
    next
      case 3 show ?thesis unfolding 3 by (rule no(3))
    qed
  qed
  have h11: "m_group ?re (strip ?rest) ?m1 (GName ''version'') = Inr (Some ''1.0'')"
    unfolding msg by (simp add: eval_defs)
  show ?thesis
    using section_between_two_headings[OF h1 h2 h3 h4 h5 h6 h7 h8 h9 h10 h11,
            of release_version "\<lambda>_ _ body. Some body" "''CHANGES.md''" "[]" "[]"]
    unfolding msg by (simp add: eval_defs)
qed

text \<open>
  The claim as stated fails when the version of the first heading is not the declared
  one: the changelog below has the start marker and two headings, and extraction
  fails with the version error.
\<close>

theorem section_between_two_headings_counterexample:
  "re_match (Seq (Lit ''## '') version_token) ''## 1.0\<newline>A\<newline>## 0.9\<newline>B'' =
     Some \<lparr>m_start = 0, m_end = 6, m_groups = [(1, 3, 6)]\<rparr> \<and>
   re_search (Seq (Lit ''## '') version_token) ''## 1.0\<newline>A\<newline>## 0.9\<newline>B'' 6 =
     Some \<lparr>m_start = 9, m_end = 15, m_groups = [(1, 12, 15)]\<rparr> \<and>
   priv_parse_changes release_version (\<lambda>_ _ body. Some body)
     ''# S\<newline>\<newline>## 1.0\<newline>A\<newline>## 0.9\<newline>B'' ''CHANGES.md'' ''2.0'' ''S''
     (Seq (Lit ''## '') (Field ''version'')) [] [] (Lit ''x'') =
     Inl (ValueError (DistributionYounger ''2.0'' ''1.0'' ''CHANGES.md''))"
  by (simp add: priv_parse_changes_def eval_defs release_version_def split_dots.simps
        decimal_def digit_val_def drop_trailing_zeros_def)

text \<open>
  Claim C5, as amended. With the start marker and the first heading as in C1, let the
  heading pattern match at no position from the end of the first match to the end of
  the trimmed text. Then extraction without a fix-issue substitution returns all the
  text after the first match, trimmed; with a substitution it returns the
  substituted text, trimmed. The class-based extractor returns the same note when
  its template, with the version fields in brackets, is the template here.
\<close>

theorem section_after_only_heading:
  fixes parse_version :: "string \<Rightarrow> 'v::order option"
  assumes mark: "start_line \<noteq> []" "changes = pre @ start_line @ rest"
      "\<forall>j<length pre. \<not> prefix start_line (drop j changes)"
    and pat: "format head_line
                [(''version'', version_token), (''date'', date_token), (''name'', name)]
              = Inr pattern"
      "re_compile pattern = Inr head_re"
    and first: "re_match head_re (strip rest) = Some m1"
    and none: "\<forall>j. m_end m1 \<le> j \<and> j \<le> length (strip rest) \<longrightarrow>
                   run head_re 0 (strip rest) (j, []) = []"
    and version: "m_group head_re (strip rest) m1 (GName ''version'') = Inr (Some version)"
  shows "priv_parse_changes parse_version re_sub changes changes_file version start_line head_line
           [] [] name = Inr (strip (drop (m_end m1) (strip rest))) \<and>
         (fix_issue_regex \<noteq> [] \<longrightarrow>
            priv_parse_changes parse_version re_sub changes changes_file version start_line
              head_line fix_issue_regex fix_issue_repl name =
            (case re_sub fix_issue_regex fix_issue_repl (drop (m_end m1) (strip rest)) of
               None \<Rightarrow> Inl ReError
             | Some body \<Rightarrow> Inr (strip body))) \<and>
         (\<forall>template self ctx.
            head_line = bracket_version template \<and>
            read_file ctx (self_changes_file self) = Inr changes \<and>
            self_changes_file self = changes_file \<and> ctx_version ctx = version \<and>
            self_name self = name \<longrightarrow>
            Parser_parse parse_version re_sub self ctx start_line template [] [] [] =
              Inr (strip (drop (m_end m1) (strip rest))))"
proof -
  have part: "str_partition changes start_line = Inr (pre, start_line, rest)"
    using mark str_partition_first by simp
  have search: "re_search head_re (strip rest) (m_end m1) = None"
    using none by (simp add: re_search_None)
  have found: "priv_parse_changes parse_version re_sub changes changes_file version start_line
                 head_line fr fp name =
               (if fr \<noteq> [] then
                  (case re_sub fr fp (drop (m_end m1) (strip rest)) of
                     None \<Rightarrow> Inl ReError
                   | Some body' \<Rightarrow> Inr (strip body'))
                else Inr (strip (drop (m_end m1) (strip rest))))" for fr fp
    using priv_parse_changes_found[OF part mark(1) pat first version, of parse_version re_sub
            changes_file fr fp]
    by (simp add: search)
  have cls: "Parser_parse parse_version re_sub self ctx start_line template [] [] [] =
               Inr (strip (drop (m_end m1) (strip rest)))"
    if "head_line = bracket_version template \<and>
        read_file ctx (self_changes_file self) = Inr changes \<and>
        self_changes_file self = changes_file \<and> ctx_version ctx = version \<and>
        self_name self = name" for template self ctx
    using that found[of "[]" "[]"]
      Parser_parse_bracketed[of "[]" "[]" ctx self changes parse_version re_sub start_line template]
    by auto
  have both: "\<forall>template self ctx.
            head_line = bracket_version template \<and>
            read_file ctx (self_changes_file self) = Inr changes \<and>
            self_changes_file self = changes_file \<and> ctx_version ctx = version \<and>
            self_name self = name \<longrightarrow>
            Parser_parse parse_version re_sub self ctx start_line template [] [] [] =
              Inr (strip (drop (m_end m1) (strip rest)))"
    using cls by blast
  show ?thesis
    using found[of "[]" "[]"] found[of fix_issue_regex fix_issue_repl] both
    by simp
qed

theorem section_after_only_heading_witness:
  "priv_parse_changes release_version (\<lambda>_ _ body. Some body)
     ''# S\<newline>\<newline>## 1.0\<newline>A\<newline>'' ''CHANGES.md'' ''1.0'' ''S''
     (Seq (Lit ''## '') (Field ''version'')) [] [] (Lit ''x'') = Inr ''A'' \<and>
   strip (drop 6 ''## 1.0\<newline>A'') = ''A''"
proof -
  let ?rest = "''\<newline>\<newline>## 1.0\<newline>A\<newline>''"
  let ?msg = "''## 1.0\<newline>A''"
  let ?re = "Seq (Lit ''## '') version_token"
  let ?m1 = "\<lparr>m_start = 0, m_end = 6, m_groups = [(1, 3, 6)]\<rparr>"
  have msg: "strip ?rest = ?msg" by (simp add: eval_defs)
  have h1: "''S'' \<noteq> []" by simp
  have h2: "''# S\<newline>\<newline>## 1.0\<newline>A\<newline>'' = ''# '' @ ''S'' @ ?rest" by simp
  have h3: "\<forall>j<length ''# ''. \<not> prefix ''S'' (drop j ''# S\<newline>\<newline>## 1.0\<newline>A\<newline>'')"
  proof (intro allI impI)
    fix j :: nat assume "j < length ''# ''"
    then have "j = 0 \<or> j = 1" by auto
    then show "\<not> prefix ''S'' (drop j ''# S\<newline>\<newline>## 1.0\<newline>A\<newline>'')"
      by auto
  qed
  have h4: "format (Seq (Lit ''## '') (Field ''version''))
              [(''version'', version_token), (''date'', date_token), (''name'', Lit ''x'')] = Inr ?re"
    by simp
  have h5: "re_compile ?re = Inr ?re" by (simp add: eval_defs)
  have h6: "re_match ?re (strip ?rest) = Some ?m1"
    unfolding msg by (simp add: eval_defs)
  have no: "run ?re 0 ?msg (6, []) = []" "run ?re 0 ?msg (7, []) = []"
    "run ?re 0 ?msg (8, []) = []"
    by (simp_all add: eval_defs)
  have h7: "\<forall>j. m_end ?m1 \<le> j \<and> j \<le> length (strip ?rest) \<longrightarrow>
                run ?re 0 (strip ?rest) (j, []) = []"
    unfolding msg
  proof (intro allI impI)
    fix j :: nat assume "m_end ?m1 \<le> j \<and> j \<le> length ?msg"
    then consider "j = 6" | "j = 7" | "j = 8" by fastforce
    then show "run ?re 0 ?msg (j, []) = []"
    proof cases
      case 1 show ?thesis unfolding 1 by (rule no(1))
    next
      case 2 show ?thesis unfolding 2 by (rule no(2))
    next
      case 3 show ?thesis unfolding 3 by (rule no(3))
    qed
  qed
  have h8: "m_group ?re (strip ?rest) ?m1 (GName ''version'') = Inr (Some ''1.0'')"
    unfolding msg by (simp add: eval_defs)
  show ?thesis
    using section_after_only_heading[OF h1 h2 h3 h4 h5 h6 h7 h8,
            of release_version "\<lambda>_ _ body. Some body" "''CHANGES.md''" "[]" "[]"]
    unfolding msg by (simp add: eval_defs)
qed

text \<open>
  The claim as stated fails when the version of the only heading is not the declared
  one: extraction fails with the version error.
\<close>

theorem section_after_only_heading_counterexample:
  "re_match (Seq (Lit ''## '') version_token) ''## 1.0\<newline>A'' =
     Some \<lparr>m_start = 0, m_end = 6, m_groups = [(1, 3, 6)]\<rparr> \<and>
   re_search (Seq (Lit ''## '') version_token) ''## 1.0\<newline>A'' 6 = None \<and>
   priv_parse_changes release_version (\<lambda>_ _ body. Some body)
     ''# S\<newline>\<newline>## 1.0\<newline>A\<newline>'' ''CHANGES.md'' ''0.9'' ''S''
     (Seq (Lit ''## '') (Field ''version'')) [] [] (Lit ''x'') =
     Inl (ValueError (DistributionOlder ''0.9'' ''1.0'' ''CHANGES.md''))"
  by (simp add: priv_parse_changes_def eval_defs release_version_def split_dots.simps
        decimal_def digit_val_def drop_trailing_zeros_def)

section \<open>The start marker\<close>

text \<open>
  Claim C6, as amended. Extraction fails with the "start mark not found" error exactly
  when the start marker does not occur in the changelog. For a non-empty start marker
  whose first occurrence is at the end of \<open>pre\<close>, with \<open>post\<close> after it, the partition
  yields \<open>post\<close>, extraction proceeds as on the start marker followed by the trimmed
  \<open>post\<close>, and the heading is looked for in the trimmed \<open>post\<close>: the "head mark not found"
  error arises exactly when the heading pattern does not match it at its start. For
  an empty start marker extraction fails with the empty separator error of
  \<open>str.partition\<close>. The class-based extractor, once it has read the changelog, fails
  with the start mark error on the same condition.
\<close>

theorem start_mark_outcomes:
  fixes parse_version :: "string \<Rightarrow> 'v::order option"
  shows
  "((\<exists>x. priv_parse_changes parse_version re_sub changes changes_file version start_line
            head_line fix_issue_regex fix_issue_repl name = Inl (ValueError (StartMarkNotFound x)))
      \<longleftrightarrow> \<not> sublist start_line changes) \<and>
   (start_line \<noteq> [] \<and> changes = pre @ start_line @ post \<and>
    (\<forall>j<length pre. \<not> prefix start_line (drop j changes)) \<longrightarrow>
      str_partition changes start_line = Inr (pre, start_line, post) \<and>
      priv_parse_changes parse_version re_sub changes changes_file version start_line
        head_line fix_issue_regex fix_issue_repl name =
      priv_parse_changes parse_version re_sub (start_line @ strip post) changes_file version
        start_line head_line fix_issue_regex fix_issue_repl name \<and>
      (\<forall>pattern head_re.
         format head_line
           [(''version'', version_token), (''date'', date_token), (''name'', name)] = Inr pattern \<and>
         re_compile pattern = Inr head_re \<longrightarrow>
           (priv_parse_changes parse_version re_sub changes changes_file version start_line
              head_line fix_issue_regex fix_issue_repl name =
              Inl (ValueError (HeadMarkNotFound head_re changes_file))
            \<longleftrightarrow> re_match head_re (strip post) = None))) \<and>
   (start_line = [] \<longrightarrow>
      priv_parse_changes parse_version re_sub changes changes_file version start_line
        head_line fix_issue_regex fix_issue_repl name = Inl (ValueError EmptySeparator)) \<and>
   ((fix_issue_regex = [] \<longleftrightarrow> fix_issue_repl = []) \<and>
    read_file ctx (self_changes_file self) = Inr changes \<longrightarrow>
      ((\<exists>x. Parser_parse parse_version re_sub self ctx start_line head_line
               fix_issue_regex fix_issue_repl [] = Inl (ValueError (StartMarkNotFound x)))
       \<longleftrightarrow> \<not> sublist start_line changes))"
proof (intro conjI impI)
  show "(\<exists>x. priv_parse_changes parse_version re_sub changes changes_file version start_line
            head_line fix_issue_regex fix_issue_repl name = Inl (ValueError (StartMarkNotFound x)))
      \<longleftrightarrow> \<not> sublist start_line changes"
    by (rule priv_parse_changes_start_mark_iff)
next
  assume a: "start_line \<noteq> [] \<and> changes = pre @ start_line @ post \<and>
    (\<forall>j<length pre. \<not> prefix start_line (drop j changes))"
  then have sl: "start_line \<noteq> []" and c: "changes = pre @ start_line @ post"
    by blast+
  have "\<forall>j<length pre. \<not> prefix start_line (drop j (pre @ start_line @ post))"
    using a unfolding c by blast
  then show part: "str_partition changes start_line = Inr (pre, start_line, post)"
    unfolding c using sl by (rule str_partition_first[rotated])
  have "\<forall>j<length ([]::string). \<not> prefix start_line (drop j ([] @ start_line @ strip post))"
    by simp
  then have part': "str_partition (start_line @ strip post) start_line =
                      Inr ([], start_line, strip post)"
    using str_partition_first[of start_line "[]" "strip post"] a by simp
  show "priv_parse_changes parse_version re_sub changes changes_file version start_line
        head_line fix_issue_regex fix_issue_repl name =
      priv_parse_changes parse_version re_sub (start_line @ strip post) changes_file version
        start_line head_line fix_issue_regex fix_issue_repl name"
    using priv_parse_changes_same_remainder[OF part part'] by (simp add: strip_strip)
  show "\<forall>pattern head_re.
         format head_line
           [(''version'', version_token), (''date'', date_token), (''name'', name)] = Inr pattern \<and>
         re_compile pattern = Inr head_re \<longrightarrow>
           (priv_parse_changes parse_version re_sub changes changes_file version start_line
              head_line fix_issue_regex fix_issue_repl name =
              Inl (ValueError (HeadMarkNotFound head_re changes_file))
            \<longleftrightarrow> re_match head_re (strip post) = None)"
    using priv_parse_changes_head_mark_iff[OF part] a by blast
next
  assume "start_line = []"
  then show "priv_parse_changes parse_version re_sub changes changes_file version start_line
        head_line fix_issue_regex fix_issue_repl name = Inl (ValueError EmptySeparator)"
    by (simp add: priv_parse_changes_def str_partition_def)
next
  assume "(fix_issue_regex = [] \<longleftrightarrow> fix_issue_repl = []) \<and>
    read_file ctx (self_changes_file self) = Inr changes"
  then have "Parser_parse parse_version re_sub self ctx start_line head_line
               fix_issue_regex fix_issue_repl [] =
             priv_parse_changes parse_version re_sub changes (self_changes_file self)
               (ctx_version ctx) start_line (bracket_version head_line) fix_issue_regex
               fix_issue_repl (self_name self)"
    using Parser_parse_bracketed by blast
  then show "(\<exists>x. Parser_parse parse_version re_sub self ctx start_line head_line
               fix_issue_regex fix_issue_repl [] = Inl (ValueError (StartMarkNotFound x)))
       \<longleftrightarrow> \<not> sublist start_line changes"
    using priv_parse_changes_start_mark_iff[of parse_version re_sub changes
            "self_changes_file self" "ctx_version ctx" start_line "bracket_version head_line"
            fix_issue_regex fix_issue_repl "self_name self"]
    by simp
qed

theorem start_mark_outcomes_witness:
  "str_partition ''# S\<newline>\<newline>## 1.0\<newline>A\<newline>'' ''S'' =
     Inr (''# '', ''S'', ''\<newline>\<newline>## 1.0\<newline>A\<newline>'') \<and>
   priv_parse_changes release_version (\<lambda>_ _ body. Some body)
     ''# S\<newline>\<newline>## 1.0\<newline>A\<newline>'' ''CHANGES.md'' ''1.0'' ''S''
     (Seq (Lit ''## '') (Field ''version'')) [] [] (Lit ''x'') =
   priv_parse_changes release_version (\<lambda>_ _ body. Some body)
     ''S## 1.0\<newline>A'' ''CHANGES.md'' ''1.0'' ''S''
     (Seq (Lit ''## '') (Field ''version'')) [] [] (Lit ''x'') \<and>
   \<not> sublist ''S'' ''# s## 1.0'' \<and>
   priv_parse_changes release_version (\<lambda>_ _ body. Some body)
     ''# s## 1.0'' ''CHANGES.md'' ''1.0'' ''S''
     (Seq (Lit ''## '') (Field ''version'')) [] [] (Lit ''x'') =
     Inl (ValueError (StartMarkNotFound ''S''))"
proof -
  have h: "''S'' \<noteq> [] \<and>
    ''# S\<newline>\<newline>## 1.0\<newline>A\<newline>'' = ''# '' @ ''S'' @ ''\<newline>\<newline>## 1.0\<newline>A\<newline>'' \<and>
    (\<forall>j<length ''# ''. \<not> prefix ''S'' (drop j ''# S\<newline>\<newline>## 1.0\<newline>A\<newline>''))"
  proof (intro conjI allI impI)
    fix j :: nat assume "j < length ''# ''"
    then have "j = 0 \<or> j = 1" by auto
    then show "\<not> prefix ''S'' (drop j ''# S\<newline>\<newline>## 1.0\<newline>A\<newline>'')"
      by auto
  qed simp_all
  have msg: "strip ''\<newline>\<newline>## 1.0\<newline>A\<newline>'' = ''## 1.0\<newline>A''" by (simp add: eval_defs)
  have ns: "\<not> sublist ''S'' ''# s## 1.0''"
    using str_find_None[of "''S''" "''# s## 1.0''"] by simp
  have nf: "priv_parse_changes release_version (\<lambda>_ _ body. Some body)
     ''# s## 1.0'' ''CHANGES.md'' ''1.0'' ''S''
     (Seq (Lit ''## '') (Field ''version'')) [] [] (Lit ''x'') =
     Inl (ValueError (StartMarkNotFound ''S''))"
    by (simp add: priv_parse_changes_def eval_defs)
  note T = start_mark_outcomes[of release_version "\<lambda>_ _ body. Some body"
            "''# S\<newline>\<newline>## 1.0\<newline>A\<newline>''" "''CHANGES.md''" "''1.0''" "''S''"
            "Seq (Lit ''## '') (Field ''version'')" "[]" "[]" "Lit ''x''" "''# ''"
            "''\<newline>\<newline>## 1.0\<newline>A\<newline>''"]
  note U = T[THEN conjunct2, THEN conjunct1, THEN mp, OF h]
  have app: "''S'' @ ''## 1.0\<newline>A'' = ''S## 1.0\<newline>A''" by simp
  show ?thesis
    using U[THEN conjunct1] U[THEN conjunct2, THEN conjunct1] ns nf
    unfolding msg app by (intro conjI)
qed


text \<open>
  The claim as stated fails for the empty start marker: it occurs in every text, the
  text after its first occurrence is a heading with its notes, and extraction fails
  with the empty separator error.
\<close>

theorem start_mark_outcomes_counterexample:
  "sublist [] ''## 1.0\<newline>A'' \<and>
   priv_parse_changes release_version (\<lambda>_ _ body. Some body)
     ''## 1.0\<newline>A'' ''CHANGES.md'' ''1.0'' []
     (Seq (Lit ''## '') (Field ''version'')) [] [] (Lit ''x'') = Inl (ValueError EmptySeparator)"
  by (simp add: priv_parse_changes_def str_partition_def)

section \<open>The substitution step\<close>

text \<open>
  Claim C9. With \<open>fix_issue_regex\<close> and \<open>fix_issue_repl\<close> both empty, whatever the
  substitution function of the library does, the outcome of extraction is the outcome
  of extraction with a substitution that returns its text unchanged (whatever its
  pattern and replacement are): the substitution step is the identity. A note that is
  returned is the trimmed section body: the text between the end of the heading match
  and the next heading match or the end of the trimmed text, trimmed. The same holds
  for the class-based extractor.
\<close>

theorem no_fix_issue_is_identity:
  fixes parse_version :: "string \<Rightarrow> 'v::order option"
  shows
  "priv_parse_changes parse_version re_sub changes changes_file version start_line head_line
     [] [] name =
   priv_parse_changes parse_version (\<lambda>_ _ body. Some body) changes changes_file version
     start_line head_line fix_issue_regex fix_issue_repl name \<and>
   (priv_parse_changes parse_version re_sub changes changes_file version start_line head_line
      [] [] name = Inr note \<longrightarrow>
    (\<exists>a rest head_re mt.
       str_partition changes start_line = Inr (a, start_line, rest) \<and>
       format head_line
         [(''version'', version_token), (''date'', date_token), (''name'', name)] = Inr head_re \<and>
       re_match head_re (strip rest) = Some mt \<and>
       note = strip (case re_search head_re (strip rest) (m_end mt) of
                       Some mt2 \<Rightarrow> slice (strip rest) (m_end mt) (m_start mt2)
                     | None \<Rightarrow> drop (m_end mt) (strip rest)))) \<and>
   (fix_issue_regex \<noteq> [] \<and> fix_issue_repl \<noteq> [] \<longrightarrow>
    Parser_parse parse_version re_sub self ctx start_line head_line [] [] input_check_ref =
    Parser_parse parse_version (\<lambda>_ _ body. Some body) self ctx start_line head_line
      fix_issue_regex fix_issue_repl input_check_ref)"
proof (intro conjI impI)
  show "priv_parse_changes parse_version re_sub changes changes_file version start_line head_line
     [] [] name =
   priv_parse_changes parse_version (\<lambda>_ _ body. Some body) changes changes_file version
     start_line head_line fix_issue_regex fix_issue_repl name"
    by (rule priv_parse_changes_identity_sub)
next
  assume "priv_parse_changes parse_version re_sub changes changes_file version start_line head_line
      [] [] name = Inr note"
  then show "\<exists>a rest head_re mt.
       str_partition changes start_line = Inr (a, start_line, rest) \<and>
       format head_line
         [(''version'', version_token), (''date'', date_token), (''name'', name)] = Inr head_re \<and>
       re_match head_re (strip rest) = Some mt \<and>
       note = strip (case re_search head_re (strip rest) (m_end mt) of
                       Some mt2 \<Rightarrow> slice (strip rest) (m_end mt) (m_start mt2)
                     | None \<Rightarrow> drop (m_end mt) (strip rest))"
    by (rule priv_parse_changes_note)
next
  assume "fix_issue_regex \<noteq> [] \<and> fix_issue_repl \<noteq> []"
  then show "Parser_parse parse_version re_sub self ctx start_line head_line [] [] input_check_ref =
    Parser_parse parse_version (\<lambda>_ _ body. Some body) self ctx start_line head_line
      fix_issue_regex fix_issue_repl input_check_ref"
    using priv_parse_changes_identity_sub[of parse_version re_sub _ "self_changes_file self"
            "ctx_version ctx" start_line "bracket_version head_line" "self_name self"
            fix_issue_regex fix_issue_repl]
    by (simp add: Parser_parse_via_function split: sum.splits)
qed

theorem no_fix_issue_is_identity_witness:
  "priv_parse_changes release_version (\<lambda>_ _ _. None)
     ''# S\<newline>\<newline>## 1.0\<newline>A\<newline>'' ''CHANGES.md'' ''1.0'' ''S''
     (Seq (Lit ''## '') (Field ''version'')) [] [] (Lit ''x'') = Inr ''A'' \<and>
   priv_parse_changes release_version (\<lambda>_ _ body. Some body)
     ''# S\<newline>\<newline>## 1.0\<newline>A\<newline>'' ''CHANGES.md'' ''1.0'' ''S''
     (Seq (Lit ''## '') (Field ''version'')) ''#([0-9]+)'' ''issue'' (Lit ''x'') = Inr ''A'' \<and>
   ''#([0-9]+)'' \<noteq> [] \<and> ''issue'' \<noteq> [] \<and>
   Parser_parse release_version (\<lambda>_ _ _. None)
     \<lparr>self_changes_file = ''CHANGES.md'', self_name = Lit ''x''\<rparr>
     \<lparr>ctx_root = [''CHANGES.md'' \<mapsto> ''# S\<newline>\<newline>## [1.0]\<newline>A\<newline>''], ctx_version = ''1.0''\<rparr>
     ''S'' (Seq (Lit ''## '') (Field ''version'')) [] [] [] =
   Parser_parse release_version (\<lambda>_ _ body. Some body)
     \<lparr>self_changes_file = ''CHANGES.md'', self_name = Lit ''x''\<rparr>
     \<lparr>ctx_root = [''CHANGES.md'' \<mapsto> ''# S\<newline>\<newline>## [1.0]\<newline>A\<newline>''], ctx_version = ''1.0''\<rparr>
     ''S'' (Seq (Lit ''## '') (Field ''version'')) ''#([0-9]+)'' ''issue'' []"
proof -
  have ev: "priv_parse_changes release_version (\<lambda>_ _ _. None)
     ''# S\<newline>\<newline>## 1.0\<newline>A\<newline>'' ''CHANGES.md'' ''1.0'' ''S''
     (Seq (Lit ''## '') (Field ''version'')) [] [] (Lit ''x'') = Inr ''A''"
    by (simp add: priv_parse_changes_def eval_defs)
  have ne: "''#([0-9]+)'' \<noteq> [] \<and> ''issue'' \<noteq> []" by simp
  note T = no_fix_issue_is_identity[of release_version "\<lambda>_ _ _. None"
            "''# S\<newline>\<newline>## 1.0\<newline>A\<newline>''" "''CHANGES.md''" "''1.0''" "''S''"
            "Seq (Lit ''## '') (Field ''version'')" "Lit ''x''" "''#([0-9]+)''" "''issue''" "''A''"
            "\<lparr>self_changes_file = ''CHANGES.md'', self_name = Lit ''x''\<rparr>"
            "\<lparr>ctx_root = [''CHANGES.md'' \<mapsto> ''# S\<newline>\<newline>## [1.0]\<newline>A\<newline>''], ctx_version = ''1.0''\<rparr>"
            "[]"]
  show ?thesis
    using ev T[THEN conjunct1] T[THEN conjunct2, THEN conjunct2, THEN mp, OF ne]
    by simp
qed


section \<open>The two pipelines\<close>

text \<open>
  Claim C4, as amended. With the fix-issue parameters both empty or both non-empty,
  no git reference to check and the changelog read from the changes file,
  \<open>Parser.parse\<close> on a template gives the outcome of \<open>_parse_changes\<close> on the template
  whose version fields stand between a literal \<open>[\<close> and a literal \<open>]\<close>. With exactly one
  of the fix-issue parameters empty, \<open>Parser.parse\<close> fails with the "should be used
  together" error.
\<close>

theorem pipelines_agree_on_bracketed_template:
  fixes parse_version :: "string \<Rightarrow> 'v::order option"
  shows
  "((fix_issue_regex = [] \<longleftrightarrow> fix_issue_repl = []) \<and>
    read_file ctx (self_changes_file self) = Inr changes \<longrightarrow>
      Parser_parse parse_version re_sub self ctx start_line head_line
        fix_issue_regex fix_issue_repl [] =
      priv_parse_changes parse_version re_sub changes (self_changes_file self) (ctx_version ctx)
        start_line (bracket_version head_line) fix_issue_regex fix_issue_repl (self_name self)) \<and>
   ((fix_issue_regex = []) \<noteq> (fix_issue_repl = []) \<longrightarrow>
      Parser_parse parse_version re_sub self ctx start_line head_line
        fix_issue_regex fix_issue_repl input_check_ref = Inl (ValueError FixIssueTogether))"
  using Parser_parse_bracketed[of fix_issue_regex fix_issue_repl ctx self changes parse_version
          re_sub start_line head_line]
  by (auto simp: Parser_parse_via_function)

theorem pipelines_agree_on_bracketed_template_witness:
  "Parser_parse release_version (\<lambda>_ _ body. Some body)
     \<lparr>self_changes_file = ''CHANGES.md'', self_name = Lit ''x''\<rparr>
     \<lparr>ctx_root = [''CHANGES.md'' \<mapsto> ''# S\<newline>\<newline>## [1.0]\<newline>A\<newline>''], ctx_version = ''1.0''\<rparr>
     ''S'' (Seq (Lit ''## '') (Field ''version'')) [] [] [] = Inr ''A'' \<and>
   priv_parse_changes release_version (\<lambda>_ _ body. Some body)
     ''# S\<newline>\<newline>## [1.0]\<newline>A\<newline>'' ''CHANGES.md'' ''1.0'' ''S''
     (Seq (Lit ''## '') (Seq (Lit ''['') (Seq (Field ''version'') (Lit '']'')))) [] [] (Lit ''x'') =
     Inr ''A''"
proof -
  let ?ctx = "\<lparr>ctx_root = [''CHANGES.md'' \<mapsto> ''# S\<newline>\<newline>## [1.0]\<newline>A\<newline>''], ctx_version = ''1.0''\<rparr>"
  let ?self = "\<lparr>self_changes_file = ''CHANGES.md'', self_name = Lit ''x''\<rparr>"
  have h: "(([]::string) = [] \<longleftrightarrow> ([]::string) = []) \<and>
           read_file ?ctx (self_changes_file ?self) = Inr ''# S\<newline>\<newline>## [1.0]\<newline>A\<newline>''"
    by (simp add: read_file_def)
  have ev: "priv_parse_changes release_version (\<lambda>_ _ body. Some body)
     ''# S\<newline>\<newline>## [1.0]\<newline>A\<newline>'' ''CHANGES.md'' ''1.0'' ''S''
     (Seq (Lit ''## '') (Seq (Lit ''['') (Seq (Field ''version'') (Lit '']'')))) [] [] (Lit ''x'') =
     Inr ''A''"
    by (simp add: priv_parse_changes_def eval_defs)
  note T = pipelines_agree_on_bracketed_template[of "[]" "[]" ?ctx ?self
             "''# S\<newline>\<newline>## [1.0]\<newline>A\<newline>''" release_version
             "\<lambda>_ _ body. Some body" "''S''" "Seq (Lit ''## '') (Field ''version'')" "[]"]
  show ?thesis
    using T[THEN conjunct1, THEN mp, OF h] ev by simp
qed


text \<open>
  The claim as stated fails: on the same template and the same changelog, whose
  heading has the version without brackets, \<open>_parse_changes\<close> returns the note and
  \<open>Parser.parse\<close> fails to find the heading.
\<close>

theorem pipelines_agree_counterexample:
  "priv_parse_changes release_version (\<lambda>_ _ body. Some body)
     ''# S\<newline>\<newline>## 1.0\<newline>A\<newline>'' ''CHANGES.md'' ''1.0'' ''S''
     (Seq (Lit ''## '') (Field ''version'')) [] [] (Lit ''x'') = Inr ''A'' \<and>
   Parser_parse release_version (\<lambda>_ _ body. Some body)
     \<lparr>self_changes_file = ''CHANGES.md'', self_name = Lit ''x''\<rparr>
     \<lparr>ctx_root = [''CHANGES.md'' \<mapsto> ''# S\<newline>\<newline>## 1.0\<newline>A\<newline>''], ctx_version = ''1.0''\<rparr>
     ''S'' (Seq (Lit ''## '') (Field ''version'')) [] [] [] =
     Inl (ValueError (HeadMarkNotFound (Seq (Lit ''## '') bracketed_version_token) ''CHANGES.md''))"
  by (simp add: priv_parse_changes_def Parser_parse_def Parser_check_head_def read_file_def
        bracketed_version_token_def eval_defs)

section \<open>Facts about the matcher\<close>

text \<open>
  A repetition of a pattern that consumes one character with a property \<open>P\<close> tries the
  longest run of such characters first and then every shorter one.
\<close>

lemma take_eq_prefix: "take (length w) xs = w \<longleftrightarrow> prefix w xs"
proof
  assume "take (length w) xs = w"
  then show "prefix w xs" by (metis take_is_prefix)
next
  assume "prefix w xs"
  then show "take (length w) xs = w" by (auto simp: prefix_def)
qed

lemma lit_at_prefix:
  "lit_at w s (i, g) = (if prefix w (drop i s) then [(i + length w, g)] else [])"
  by (simp add: lit_at_def slice_def take_eq_prefix)

lemma chr_at_drop:
  "chr_at P s (i, g) = (case drop i s of [] \<Rightarrow> [] | c # _ \<Rightarrow> if P c then [(Suc i, g)] else [])"
proof (cases "i < length s")
  case True
  then have "drop i s = s ! i # drop (Suc i) s" by (simp add: Cons_nth_drop_Suc)
  then show ?thesis using True by (simp add: chr_at_def)
next
  case False
  then show ?thesis by (simp add: chr_at_def)
qed

lemma rev_upt_Suc_map:
  "map f (rev [0 ..< Suc (Suc k)]) = map (\<lambda>j. f (Suc j)) (rev [0 ..< Suc k]) @ [f 0]"
proof -
  have e: "[0 ..< Suc (Suc k)] = 0 # map Suc [0 ..< Suc k]"
    by (metis map_Suc_upt upt_conv_Cons zero_less_Suc)
  show ?thesis unfolding e by (simp del: upt_Suc add: rev_map comp_def)
qed

lemma run_star_step:
  assumes step: "\<And>j. run a n s (j, g) =
                   (case drop j s of [] \<Rightarrow> [] | c # _ \<Rightarrow> if P c then [(Suc j, g)] else [])"
  shows "run (Star a) n s (i, g) =
         map (\<lambda>k. (i + k, g)) (rev [0 ..< Suc (length (takeWhile P (drop i s)))])"
proof (induction "length s - i" arbitrary: i)
  case 0
  then have "drop i s = []" by simp
  then show ?case by (simp add: step run.simps(8))
next
  case (Suc m)
  then have lt: "i < length s" by simp
  then obtain c cs where d: "drop i s = c # cs" "cs = drop (Suc i) s"
    by (metis Cons_nth_drop_Suc)
  show ?case
  proof (cases "P c")
    case True
    have ih: "run (Star a) n s (Suc i, g) =
              map (\<lambda>k. (Suc i + k, g)) (rev [0 ..< Suc (length (takeWhile P cs))])"
      using Suc.hyps(1)[of "Suc i"] Suc.hyps(2) d(2) by simp
    have "run (Star a) n s (i, g) = run (Star a) n s (Suc i, g) @ [(i, g)]"
      using True d lt by (simp add: step run.simps(8)[of a n s "(i, g)"])
    then show ?thesis
      using True d ih rev_upt_Suc_map[of "\<lambda>k. (i + k, g)" "length (takeWhile P cs)"]
      by simp
  next
    case False
    then show ?thesis using d by (simp add: step run.simps(8))
  qed
qed

lemma run_plus_step:
  assumes step: "\<And>j. run a n s (j, g) =
                   (case drop j s of [] \<Rightarrow> [] | c # _ \<Rightarrow> if P c then [(Suc j, g)] else [])"
  shows "run (Plus a) n s (i, g) =
         map (\<lambda>k. (i + k, g)) (rev [1 ..< Suc (length (takeWhile P (drop i s)))])"
proof (cases "drop i s")
  case Nil
  then show ?thesis by (simp add: step run.simps(9))
next
  case (Cons c cs)
  then have cs: "cs = drop (Suc i) s" by (metis drop_Suc tl_drop list.sel(3))
  show ?thesis
  proof (cases "P c")
    case True
    have "[1 ..< Suc (Suc (length (takeWhile P cs)))] = map Suc [0 ..< Suc (length (takeWhile P cs))]"
      by (metis One_nat_def map_Suc_upt)
    then show ?thesis
      using True Cons cs run_star_step[OF step, of "Suc i"]
      by (simp add: step rev_map comp_def run.simps(9))
  next
    case False
    then show ?thesis using Cons by (simp add: step run.simps(9))
  qed
qed

lemma run_CSet_step:
  "run (CSet cs) n s (j, g) =
     (case drop j s of [] \<Rightarrow> [] | c # _ \<Rightarrow> if c \<in> set cs then [(Suc j, g)] else [])"
  by (simp add: chr_at_drop)

lemma run_Lit1_step:
  "run (Lit [x]) n s (j, g) =
     (case drop j s of [] \<Rightarrow> [] | c # _ \<Rightarrow> if c = x then [(Suc j, g)] else [])"
  by (auto simp: lit_at_prefix split: list.splits)

lemma drop_Suc_of_Cons: "drop i s = c # cs \<Longrightarrow> drop (Suc i) s = cs"
  by (metis drop_Suc tl_drop list.sel(3))

lemma takeWhile_none: "tail = [] \<or> \<not> P (hd tail) \<Longrightarrow> takeWhile P tail = []"
  by (cases tail) auto

lemma version_token_needs_two:
  assumes "drop i s = c # tail" "tail = [] \<or> hd tail \<notin> set (digits @ ''.abcr'')"
  shows "run version_token n s (i, g) = []"
proof -
  have t: "drop (Suc i) s = tail" using assms(1) by (rule drop_Suc_of_Cons)
  have tw: "takeWhile (\<lambda>c. c \<in> set (digits @ ''.abcr'')) tail = []"
    using assms(2) by (rule takeWhile_none)
  have plus: "run (Plus (CSet (digits @ ''.abcr''))) k s (Suc i, g) = []" for k
    using run_plus_step[of "CSet (digits @ ''.abcr'')" k s g "\<lambda>c. c \<in> set (digits @ ''.abcr'')" "Suc i",
            OF run_CSet_step] t tw
    by simp
  show ?thesis
    using assms(1) by (simp add: version_token_def chr_at_drop plus)
qed

lemma single_char_heading_no_match:
  assumes "msg = lead @ c # tail" "tail = [] \<or> hd tail \<notin> set (digits @ ''.abcr'')"
  shows "re_match (Seq (Lit lead) (Seq version_token after)) msg = None"
proof -
  have "drop (length lead) msg = c # tail" using assms(1) by simp
  then have "run version_token n msg (length lead, g) = []" for n g
    using assms(2) version_token_needs_two by blast
  then show ?thesis
    using assms(1) by (simp add: re_match_def lit_at_prefix)
qed

lemma single_char_bracketed_heading_no_match:
  assumes "msg = lead @ ''['' @ c # tail" "tail = [] \<or> hd tail \<notin> set (digits @ ''.abcr'')"
  shows "re_match (Seq (Lit lead) (Seq bracketed_version_token after)) msg = None"
proof -
  have "drop (Suc (length lead)) msg = c # tail" using assms(1) by simp
  then have "run version_token n msg (Suc (length lead), g) = []" for n g
    using assms(2) version_token_needs_two by blast
  then show ?thesis
    using assms(1)
    by (simp add: re_match_def lit_at_prefix bracketed_version_token_def)
qed

lemma in_run_Seq:
  "st' \<in> set (run (Seq a b) n s st) \<longleftrightarrow>
     (\<exists>x \<in> set (run a n s st). st' \<in> set (run b (n + ngroups a) s x))"
  by simp

lemma in_run_Opt: "st' \<in> set (run (Opt a) n s st) \<longleftrightarrow> st' \<in> set (run a n s st) \<or> st' = st"
  by auto

lemma in_run_Group:
  "st' \<in> set (run (Group nm a) n s st) \<longleftrightarrow>
     (\<exists>x \<in> set (run a (Suc n) s st). st' = (fst x, (Suc n, fst st, fst x) # snd x))"
  by auto

lemma in_run_Lit:
  "st' \<in> set (run (Lit w) n s (i, g)) \<longleftrightarrow> prefix w (drop i s) \<and> st' = (i + length w, g)"
  by (auto simp: lit_at_prefix)

lemma in_run_CSet:
  "st' \<in> set (run (CSet cs) n s (i, g)) \<longleftrightarrow>
     (\<exists>c r. drop i s = c # r \<and> c \<in> set cs) \<and> st' = (Suc i, g)"
  by (cases "drop i s") (auto simp: chr_at_drop)

lemma in_run_plus_cset:
  "st' \<in> set (run (Plus (CSet cs)) n s (i, g)) \<longleftrightarrow>
     (\<exists>k. st' = (i + k, g) \<and> 1 \<le> k \<and> k \<le> length (takeWhile (\<lambda>c. c \<in> set cs) (drop i s)))"
proof -
  have "run (Plus (CSet cs)) n s (i, g) =
        map (\<lambda>k. (i + k, g)) (rev [1 ..< Suc (length (takeWhile (\<lambda>c. c \<in> set cs) (drop i s)))])"
    by (rule run_plus_step[OF run_CSet_step])
  then show ?thesis by (auto)
qed

lemma in_run_post_group:
  assumes "st' \<in> set (run (Group None (Seq (Lit ''.post'') (Plus (CSet digits)))) m s (p, g))"
  shows "\<exists>r2 k. drop p s = ''.post'' @ r2 \<and> 1 \<le> k \<and>
           k \<le> length (takeWhile (\<lambda>c. c \<in> set digits) r2) \<and>
           fst st' = p + length ''.post'' + k"
proof -
  from assms obtain x where x: "x \<in> set (run (Seq (Lit ''.post'') (Plus (CSet digits))) (Suc m) s (p, g))"
    "fst st' = fst x"
    unfolding in_run_Group by (auto simp del: run.simps)
  from x(1) obtain y where y: "y \<in> set (run (Lit ''.post'') (Suc m) s (p, g))"
    "x \<in> set (run (Plus (CSet digits)) (Suc m + ngroups (Lit ''.post'')) s y)"
    unfolding in_run_Seq by blast
  from y(1) have pre: "prefix ''.post'' (drop p s)" and yy: "y = (p + length ''.post'', g)"
    unfolding in_run_Lit by blast+
  from pre obtain r2 where r2: "drop p s = ''.post'' @ r2" by (auto simp: prefix_def)
  have "drop (length ''.post'') (drop p s) = r2" unfolding r2 by simp
  then have d: "drop (p + length ''.post'') s = r2" by (simp only: drop_drop add.commute)
  from y(2) obtain k where "x = (p + length ''.post'' + k, g)" "1 \<le> k"
    "k \<le> length (takeWhile (\<lambda>c. c \<in> set digits) (drop (p + length ''.post'') s))"
    unfolding yy in_run_plus_cset by blast
  then show ?thesis using r2 d x(2) by (metis fst_conv)
qed

lemma take_takeWhile:
  assumes "k \<le> length (takeWhile P r)"
  shows "set (take k r) \<subseteq> {c. P c} \<and> length (take k r) = k"
proof -
  have "r = takeWhile P r @ dropWhile P r" by simp
  then have "take k r = take k (takeWhile P r)"
    using assms by (metis take_append diff_is_0_eq' take_0 append_Nil2)
  moreover have "set (take k (takeWhile P r)) \<subseteq> {c. P c}"
    using set_takeWhileD by (metis (mono_tags, lifting) in_set_takeD mem_Collect_eq subsetI)
  moreover have "length (take k (takeWhile P r)) = k" using assms by simp
  ultimately show ?thesis by simp
qed

lemma version_token_shape_lemma:
  assumes "st' \<in> set (run version_token n s (i, g))"
  shows "\<exists>d body post.
           slice s i (fst st') = d # body @ post \<and> d \<in> set digits \<and> body \<noteq> [] \<and>
           set body \<subseteq> set (digits @ ''.abcr'') \<and>
           (post = [] \<or> (\<exists>ds. post = ''.post'' @ ds \<and> ds \<noteq> [] \<and> set ds \<subseteq> set digits)) \<and>
           map_of (snd st') (Suc n) = Some (i, fst st')"
proof -
  let ?V = "digits @ ''.abcr''"
  let ?G = "Group None (Seq (Lit ''.post'') (Plus (CSet digits)))"
  let ?B = "Seq (CSet digits) (Seq (Plus (CSet ?V)) (Opt ?G))"
  have vt: "version_token = Group (Some ''version'') ?B" by (simp add: version_token_def)
  from assms obtain x where x: "x \<in> set (run ?B (Suc n) s (i, g))"
    and st': "st' = (fst x, (Suc n, i, fst x) # snd x)"
    unfolding vt in_run_Group by (auto simp del: run.simps)
  from x obtain y where y: "y \<in> set (run (CSet digits) (Suc n) s (i, g))"
    and x2: "x \<in> set (run (Seq (Plus (CSet ?V)) (Opt ?G)) (Suc n + ngroups (CSet digits)) s y)"
    unfolding in_run_Seq by blast
  from y obtain d r where d: "drop i s = d # r" "d \<in> set digits" and yy: "y = (Suc i, g)"
    unfolding in_run_CSet by blast
  have r: "drop (Suc i) s = r" using d(1) by (rule drop_Suc_of_Cons)
  from x2 obtain z where z: "z \<in> set (run (Plus (CSet ?V)) (Suc n + ngroups (CSet digits)) s (Suc i, g))"
    and x3: "x \<in> set (run (Opt ?G) (Suc n + ngroups (CSet digits) + ngroups (Plus (CSet ?V))) s z)"
    unfolding in_run_Seq yy by blast
  from z obtain k where zz: "z = (Suc i + k, g)" and k: "1 \<le> k"
    "k \<le> length (takeWhile (\<lambda>c. c \<in> set ?V) r)"
    unfolding in_run_plus_cset r by blast
  have body: "set (take k r) \<subseteq> set ?V" "length (take k r) = k"
    using take_takeWhile[OF k(2)] by auto
  then have body_ne: "take k r \<noteq> []" using k(1) by auto
  have dk: "drop (Suc i + k) s = drop k r" using r by (metis add.commute drop_drop)
  have mp: "map_of (snd st') (Suc n) = Some (i, fst st')" using st' by simp
  from x3 consider (none) "x = z"
    | (post) "x \<in> set (run ?G (Suc n + ngroups (CSet digits) + ngroups (Plus (CSet ?V))) s (Suc i + k, g))"
    unfolding in_run_Opt zz by blast
  then show ?thesis
  proof cases
    case none
    then have "fst st' = Suc i + k" using st' zz by simp
    then have "slice s i (fst st') = d # take k r @ []"
      using d by (simp add: slice_def)
    then show ?thesis using d(2) body(1) body_ne mp by blast
  next
    case post
    from in_run_post_group[OF post] obtain r2 m where
      m: "drop (Suc i + k) s = ''.post'' @ r2" "1 \<le> m"
         "m \<le> length (takeWhile (\<lambda>c. c \<in> set digits) r2)"
         "fst x = Suc i + k + length ''.post'' + m"
      by blast
    have ds: "set (take m r2) \<subseteq> set digits" "length (take m r2) = m"
      using take_takeWhile[OF m(3)] by auto
    then have ds_ne: "take m r2 \<noteq> []" using m(2) by auto
    have "take (k + (length ''.post'' + m)) r = take k r @ take (length ''.post'' + m) (drop k r)"
      by (rule take_add)
    also have "take (length ''.post'' + m) (drop k r) = ''.post'' @ take m r2"
    proof -
      have e: "drop k r = ''.post'' @ r2" using m(1) dk by simp
      show ?thesis unfolding e by simp
    qed
    finally have tk: "take (k + (length ''.post'' + m)) r = take k r @ ''.post'' @ take m r2" .
    have "fst st' - i = Suc (k + (length ''.post'' + m))" using st' m(4) by simp
    then have "slice s i (fst st') = d # take (k + (length ''.post'' + m)) r"
      using d(1) unfolding slice_def by (simp only: take_Suc_Cons)
    then have "slice s i (fst st') = d # take k r @ (''.post'' @ take m r2)"
      using tk by simp
    then show ?thesis using d(2) body(1) body_ne ds(1) ds_ne mp by blast
  qed
qed

section \<open>The version token\<close>

text \<open>
  Claim C10. Whatever the version group of the heading pattern matches begins with a
  digit, goes on with at least one character out of the digits, the dot and the letters
  a, b, c, r, and may end with \<open>.post\<close> and at least one digit; the group (the first one
  opened in the token) captures exactly that text. So a heading whose version is a single
  character, followed by the end of the text or by a character outside that set, is
  not matched: with the version field after a literal lead and the trimmed text after
  the start marker beginning with that lead, extraction fails with the "version
  head mark not found" error. The class-based extractor does the same for a single
  character in brackets.
\<close>

theorem version_token_two_characters:
  fixes parse_version :: "string \<Rightarrow> 'v::order option"
  shows
  "(st' \<in> set (run version_token n s (i, g)) \<longrightarrow>
      (\<exists>d body post.
         slice s i (fst st') = d # body @ post \<and> d \<in> set digits \<and> body \<noteq> [] \<and>
         set body \<subseteq> set (digits @ ''.abcr'') \<and>
         (post = [] \<or> (\<exists>ds. post = ''.post'' @ ds \<and> ds \<noteq> [] \<and> set ds \<subseteq> set digits)) \<and>
         map_of (snd st') (Suc n) = Some (i, fst st'))) \<and>
   (start_line \<noteq> [] \<and> changes = pre @ start_line @ rest \<and>
    (\<forall>j<length pre. \<not> prefix start_line (drop j changes)) \<and>
    strip rest = lead @ c # tail \<and> (tail = [] \<or> hd tail \<notin> set (digits @ ''.abcr'')) \<and>
    format after [(''version'', version_token), (''date'', date_token), (''name'', name)]
      = Inr after' \<and>
    re_compile (Seq (Lit lead) (Seq version_token after')) = Inr head_re \<longrightarrow>
      priv_parse_changes parse_version re_sub changes changes_file version start_line
        (Seq (Lit lead) (Seq (Field ''version'') after)) fix_issue_regex fix_issue_repl name =
      Inl (ValueError (HeadMarkNotFound head_re changes_file))) \<and>
   ((fix_issue_regex = [] \<longleftrightarrow> fix_issue_repl = []) \<and>
    read_file ctx (self_changes_file self) = Inr changes \<and>
    start_line \<noteq> [] \<and> changes = pre @ start_line @ rest \<and>
    (\<forall>j<length pre. \<not> prefix start_line (drop j changes)) \<and>
    strip rest = lead @ ''['' @ c # tail \<and> (tail = [] \<or> hd tail \<notin> set (digits @ ''.abcr'')) \<and>
    format after [(''version'', bracketed_version_token), (''date'', date_token),
                  (''name'', self_name self)] = Inr after' \<and>
    re_compile (Seq (Lit lead) (Seq bracketed_version_token after')) = Inr head_re \<longrightarrow>
      Parser_parse parse_version re_sub self ctx start_line
        (Seq (Lit lead) (Seq (Field ''version'') after)) fix_issue_regex fix_issue_repl [] =
      Inl (ValueError (HeadMarkNotFound head_re (self_changes_file self))))"
proof (intro conjI impI)
  assume "st' \<in> set (run version_token n s (i, g))"
  then show "\<exists>d body post.
         slice s i (fst st') = d # body @ post \<and> d \<in> set digits \<and> body \<noteq> [] \<and>
         set body \<subseteq> set (digits @ ''.abcr'') \<and>
         (post = [] \<or> (\<exists>ds. post = ''.post'' @ ds \<and> ds \<noteq> [] \<and> set ds \<subseteq> set digits)) \<and>
         map_of (snd st') (Suc n) = Some (i, fst st')"
    by (rule version_token_shape_lemma)
next
  assume a: "start_line \<noteq> [] \<and> changes = pre @ start_line @ rest \<and>
    (\<forall>j<length pre. \<not> prefix start_line (drop j changes)) \<and>
    strip rest = lead @ c # tail \<and> (tail = [] \<or> hd tail \<notin> set (digits @ ''.abcr'')) \<and>
    format after [(''version'', version_token), (''date'', date_token), (''name'', name)]
      = Inr after' \<and>
    re_compile (Seq (Lit lead) (Seq version_token after')) = Inr head_re"
  then have sl: "start_line \<noteq> []" and c: "changes = pre @ start_line @ rest" by blast+
  have "\<forall>j<length pre. \<not> prefix start_line (drop j (pre @ start_line @ rest))"
    using a unfolding c by blast
  then have part: "str_partition changes start_line = Inr (pre, start_line, rest)"
    unfolding c using sl by (rule str_partition_first[rotated])
  have fmt: "format (Seq (Lit lead) (Seq (Field ''version'') after))
               [(''version'', version_token), (''date'', date_token), (''name'', name)] =
             Inr (Seq (Lit lead) (Seq version_token after'))"
    using a by simp
  have cmp: "re_compile (Seq (Lit lead) (Seq version_token after')) = Inr head_re"
    using a by blast
  then have hr: "head_re = Seq (Lit lead) (Seq version_token after')"
    by (auto simp: re_compile_def split: if_splits)
  have "re_match head_re (strip rest) = None"
    unfolding hr using a single_char_heading_no_match by blast
  then show "priv_parse_changes parse_version re_sub changes changes_file version start_line
        (Seq (Lit lead) (Seq (Field ''version'') after)) fix_issue_regex fix_issue_repl name =
      Inl (ValueError (HeadMarkNotFound head_re changes_file))"
    using priv_parse_changes_head_mark_iff[OF part sl fmt cmp] by blast
next
  assume a: "(fix_issue_regex = [] \<longleftrightarrow> fix_issue_repl = []) \<and>
    read_file ctx (self_changes_file self) = Inr changes \<and>
    start_line \<noteq> [] \<and> changes = pre @ start_line @ rest \<and>
    (\<forall>j<length pre. \<not> prefix start_line (drop j changes)) \<and>
    strip rest = lead @ ''['' @ c # tail \<and> (tail = [] \<or> hd tail \<notin> set (digits @ ''.abcr'')) \<and>
    format after [(''version'', bracketed_version_token), (''date'', date_token),
                  (''name'', self_name self)] = Inr after' \<and>
    re_compile (Seq (Lit lead) (Seq bracketed_version_token after')) = Inr head_re"
  then have sl: "start_line \<noteq> []" and c: "changes = pre @ start_line @ rest" by blast+
  have "\<forall>j<length pre. \<not> prefix start_line (drop j (pre @ start_line @ rest))"
    using a unfolding c by blast
  then have part: "str_partition changes start_line = Inr (pre, start_line, rest)"
    unfolding c using sl by (rule str_partition_first[rotated])
  have "format (Seq (Lit lead) (Seq (Field ''version'') after))
               [(''version'', bracketed_version_token), (''date'', date_token),
                (''name'', self_name self)] =
             Inr (Seq (Lit lead) (Seq bracketed_version_token after'))"
    using a by simp
  then have fmt: "format (bracket_version (Seq (Lit lead) (Seq (Field ''version'') after)))
               [(''version'', version_token), (''date'', date_token), (''name'', self_name self)] =
             Inr (Seq (Lit lead) (Seq bracketed_version_token after'))"
    unfolding format_bracket_version bracketed_version_token_def by simp
  have cmp: "re_compile (Seq (Lit lead) (Seq bracketed_version_token after')) = Inr head_re"
    using a by blast
  then have hr: "head_re = Seq (Lit lead) (Seq bracketed_version_token after')"
    by (auto simp: re_compile_def split: if_splits)
  have nm: "re_match head_re (strip rest) = None"
    unfolding hr using a single_char_bracketed_heading_no_match by blast
  have "Parser_parse parse_version re_sub self ctx start_line
          (Seq (Lit lead) (Seq (Field ''version'') after)) fix_issue_regex fix_issue_repl [] =
        priv_parse_changes parse_version re_sub changes (self_changes_file self) (ctx_version ctx)
          start_line (bracket_version (Seq (Lit lead) (Seq (Field ''version'') after)))
          fix_issue_regex fix_issue_repl (self_name self)"
    using a Parser_parse_bracketed by blast
  then show "Parser_parse parse_version re_sub self ctx start_line
        (Seq (Lit lead) (Seq (Field ''version'') after)) fix_issue_regex fix_issue_repl [] =
      Inl (ValueError (HeadMarkNotFound head_re (self_changes_file self)))"
    using priv_parse_changes_head_mark_iff[OF part sl fmt cmp] nm by simp
qed

theorem version_token_two_characters_witness:
  "priv_parse_changes release_version (\<lambda>_ _ body. Some body)
     ''# S\<newline>\<newline>## 1\<newline>A'' ''CHANGES.md'' ''1'' ''S''
     (Seq (Lit ''## '') (Seq (Field ''version'') (Lit []))) [] [] (Lit ''x'') =
     Inl (ValueError (HeadMarkNotFound (Seq (Lit ''## '') (Seq version_token (Lit [])))
            ''CHANGES.md'')) \<and>
   run version_token 0 ''## 1.0'' (3, []) = [(6, [(1, 3, 6)]), (5, [(1, 3, 5)])] \<and>
   slice ''## 1.0'' 3 6 = ''1.0'' \<and> slice ''## 1.0'' 3 5 = ''1.''"
proof -
  let ?rest = "''\<newline>\<newline>## 1\<newline>A''"
  let ?re = "Seq (Lit ''## '') (Seq version_token (Lit []))"
  have h: "''S'' \<noteq> [] \<and> ''# S\<newline>\<newline>## 1\<newline>A'' = ''# '' @ ''S'' @ ?rest \<and>
    (\<forall>j<length ''# ''. \<not> prefix ''S'' (drop j ''# S\<newline>\<newline>## 1\<newline>A'')) \<and>
    strip ?rest = ''## '' @ CHR ''1'' # ''\<newline>A'' \<and>
    (''\<newline>A'' = [] \<or> hd ''\<newline>A'' \<notin> set (digits @ ''.abcr'')) \<and>
    format (Lit []) [(''version'', version_token), (''date'', date_token), (''name'', Lit ''x'')]
      = Inr (Lit []) \<and>
    re_compile ?re = Inr ?re"
  proof (intro conjI allI impI)
    fix j :: nat assume "j < length ''# ''"
    then have "j = 0 \<or> j = 1" by auto
    then show "\<not> prefix ''S'' (drop j ''# S\<newline>\<newline>## 1\<newline>A'')"
      by auto
  qed (simp_all add: eval_defs)
  have ev: "run version_token 0 ''## 1.0'' (3, []) = [(6, [(1, 3, 6)]), (5, [(1, 3, 5)])] \<and>
   slice ''## 1.0'' 3 6 = ''1.0'' \<and> slice ''## 1.0'' 3 5 = ''1.''"
    by (simp add: eval_defs)
  note T = version_token_two_characters[of _ _ _ _ _ "''S''" "''# S\<newline>\<newline>## 1\<newline>A''" "''# ''"
             ?rest "''## ''" "CHR ''1''" "''\<newline>A''" "Lit []" "Lit ''x''" "Lit []" ?re
             release_version "\<lambda>_ _ body. Some body" "''CHANGES.md''" "''1''" "[]" "[]"]
  show ?thesis
    using T[THEN conjunct2, THEN conjunct1, THEN mp, OF h] ev by simp
qed

section \<open>The version file\<close>

lemma run_Seq_first:
  assumes "run a n s st = x # xs" "run b (n + ngroups a) s x = y # ys"
  shows "\<exists>zs. run (Seq a b) n s st = y # zs"
  using assms by simp

lemma run_star_first:
  assumes step: "\<And>j. run a n s (j, g) =
                   (case drop j s of [] \<Rightarrow> [] | c # _ \<Rightarrow> if P c then [(Suc j, g)] else [])"
    and "drop i s = w @ rest" "\<forall>c \<in> set w. P c" "rest = [] \<or> \<not> P (hd rest)"
  shows "\<exists>zs. run (Star a) n s (i, g) = (i + length w, g) # zs"
proof -
  have "takeWhile P (w @ rest) = w"
    using assms(3,4) by (cases rest) (auto simp: takeWhile_append2)
  then have "run (Star a) n s (i, g) = map (\<lambda>k. (i + k, g)) (rev [0 ..< Suc (length w)])"
    using run_star_step[OF step, of i] assms(2) by simp
  then show ?thesis by simp
qed

lemma quote_step:
  assumes grp: "map_of g 1 = Some (b, Suc b)" and quo: "drop b s = q # r"
  shows "run (Seq (NotAhead (Backref 1)) Dot) n s (j, g) =
           (case drop j s of [] \<Rightarrow> []
            | c # _ \<Rightarrow> if c \<noteq> q \<and> c \<noteq> CHR 0x0A then [(Suc j, g)] else [])"
proof -
  have sl: "slice s b (Suc b) = [q]" using quo by (simp add: slice_def)
  have bref: "run (Backref 1) n s (j, g) = (if prefix [q] (drop j s) then [(j + 1, g)] else [])"
    using grp sl by (simp add: lit_at_prefix)
  have na: "run (NotAhead (Backref 1)) n s (j, g) =
              (if prefix [q] (drop j s) then [] else [(j, g)])"
    unfolding run.simps(13) bref by simp
  show ?thesis
    unfolding run.simps(6) na by (cases "drop j s") (auto simp: chr_at_drop)
qed

lemma run_Seq_firstE:
  assumes "\<exists>xs. run a n s st = x # xs" "\<exists>ys. run b (n + ngroups a) s x = y # ys"
  shows "\<exists>zs. run (Seq a b) n s st = y # zs"
  using assms by auto

lemma VERSION_RE_at_assignment:
  assumes shape: "txt = pre @ name @ sp1 @ ''='' @ sp2 @ q # value @ q # post"
    and line: "pre = [] \<or> last pre = CHR 0x0A"
    and name: "name = ''__version__'' \<or> name = ''version''"
    and sp: "set sp1 \<subseteq> {CHR '' ''}" "set sp2 \<subseteq> {CHR '' ''}"
    and q: "q = CHR 0x22 \<or> q = CHR 0x27"
    and val: "q \<notin> set value" "CHR 0x0A \<notin> set value"
  defines "p4 \<equiv> length pre + length name + length sp1 + 1 + length sp2"
  shows "\<exists>zs. run VERSION_RE 0 txt (length pre, []) =
           (Suc p4 + length value + 1, [(2, Suc p4, Suc p4 + length value), (1, p4, Suc p4)]) # zs"
proof -
  let ?p0 = "length pre"
  let ?p1 = "?p0 + length name"
  let ?p2 = "?p1 + length sp1"
  let ?p3 = "?p2 + 1"
  let ?p5 = "Suc p4"
  let ?p6 = "?p5 + length value"
  let ?g1 = "[(1, p4, ?p5)]"
  let ?g2 = "(2, ?p5, ?p6) # ?g1"
  let ?X = "Star (Seq (NotAhead (Backref 1)) Dot)"
  let ?G1 = "Group None (CSet [CHR 0x22, CHR 0x27])"
  let ?G2 = "Group None ?X"
  let ?S = "Star (Lit '' '')"
  let ?A = "Alt (Lit ''__version__'') (Lit ''version'')"
  have d0: "drop ?p0 txt = name @ sp1 @ ''='' @ sp2 @ q # value @ q # post"
    by (simp add: shape)
  have d1: "drop ?p1 txt = sp1 @ (''='' @ sp2 @ q # value @ q # post)"
    by (simp add: shape)
  have d2: "drop ?p2 txt = ''='' @ sp2 @ q # value @ q # post"
    by (simp add: shape)
  have d3: "drop ?p3 txt = sp2 @ (q # value @ q # post)"
    by (simp add: shape)
  have d4: "drop p4 txt = q # value @ q # post"
    by (simp add: shape p4_def)
  have d5: "drop ?p5 txt = value @ (q # post)"
    by (simp add: shape p4_def)
  have d6: "drop ?p6 txt = q # post"
    by (simp add: shape p4_def)
  have qsp: "q \<noteq> CHR '' ''" using q by auto
  have s8: "run (Backref 1) 2 txt (?p6, ?g2) = [(?p6 + 1, ?g2)]"
  proof -
    have "slice txt p4 ?p5 = [q]" using d4 by (simp add: slice_def)
    then show ?thesis using d6 by (simp add: lit_at_prefix)
  qed
  have g1: "map_of ?g1 1 = Some (p4, Suc p4)" by simp
  obtain z7 where s7x: "run ?X 2 txt (?p5, ?g1) = (?p6, ?g1) # z7"
    using run_star_first[of "Seq (NotAhead (Backref 1)) Dot" 2 "txt" ?g1
            "\<lambda>c. c \<noteq> q \<and> c \<noteq> CHR 0x0A" ?p5 "value" "q # post", OF quote_step[OF g1 d4] d5]
          val
    by auto
  have s7: "run ?G2 1 txt (?p5, ?g1) = (?p6, ?g2) # map (\<lambda>st'. (fst st', (2, ?p5, fst st') # snd st')) z7"
    using s7x by (simp add: numeral_2_eq_2)
  have s78: "\<exists>zs. run (Seq ?G2 (Backref 1)) 1 txt (?p5, ?g1) = (?p6 + 1, ?g2) # zs"
    using run_Seq_firstE[of ?G2 1 "txt" "(?p5, ?g1)" "(?p6, ?g2)" "Backref 1" "(?p6 + 1, ?g2)"] s7 s8
    by (simp add: ngroups_def numeral_2_eq_2 del: run.simps)
  have s6: "run ?G1 0 txt (p4, []) = [(?p5, ?g1)]"
    using d4 q by (simp add: chr_at_drop)
  have s678: "\<exists>zs. run (Seq ?G1 (Seq ?G2 (Backref 1))) 0 txt (p4, []) = (?p6 + 1, ?g2) # zs"
    using run_Seq_firstE[of ?G1 0 "txt" "(p4, [])" "(?p5, ?g1)" "Seq ?G2 (Backref 1)" "(?p6 + 1, ?g2)"]
      s6 s78
    by (simp add: ngroups_def del: run.simps)
  obtain z5 where s5: "run ?S 0 txt (?p3, []) = (p4, []) # z5"
    using run_star_first[of "Lit '' ''" 0 "txt" "[]" "\<lambda>c. c = CHR '' ''" ?p3 sp2
            "q # value @ q # post", OF run_Lit1_step d3] sp(2) qsp
    by (auto simp: p4_def)
  have s5678: "\<exists>zs. run (Seq ?S (Seq ?G1 (Seq ?G2 (Backref 1)))) 0 txt (?p3, []) = (?p6 + 1, ?g2) # zs"
    using run_Seq_firstE[of ?S 0 "txt" "(?p3, [])" "(p4, [])" "Seq ?G1 (Seq ?G2 (Backref 1))"
            "(?p6 + 1, ?g2)"] s5 s678
    by (simp add: ngroups_def del: run.simps)
  have s4: "run (Lit ''='') 0 txt (?p2, []) = [(?p3, [])]"
    using d2 by (simp add: lit_at_prefix)
  have s45678: "\<exists>zs. run (Seq (Lit ''='') (Seq ?S (Seq ?G1 (Seq ?G2 (Backref 1))))) 0 txt (?p2, []) =
                  (?p6 + 1, ?g2) # zs"
    using run_Seq_firstE[of "Lit ''=''" 0 "txt" "(?p2, [])" "(?p3, [])"
            "Seq ?S (Seq ?G1 (Seq ?G2 (Backref 1)))" "(?p6 + 1, ?g2)"] s4 s5678
    by (simp add: ngroups_def del: run.simps)
  obtain z3 where s3: "run ?S 0 txt (?p1, []) = (?p2, []) # z3"
    using run_star_first[of "Lit '' ''" 0 "txt" "[]" "\<lambda>c. c = CHR '' ''" ?p1 sp1
            "''='' @ sp2 @ q # value @ q # post", OF run_Lit1_step d1] sp(1)
    by auto
  have s3_8: "\<exists>zs. run (Seq ?S (Seq (Lit ''='') (Seq ?S (Seq ?G1 (Seq ?G2 (Backref 1)))))) 0 txt (?p1, []) =
                  (?p6 + 1, ?g2) # zs"
    using run_Seq_firstE[of ?S 0 "txt" "(?p1, [])" "(?p2, [])"
            "Seq (Lit ''='') (Seq ?S (Seq ?G1 (Seq ?G2 (Backref 1))))" "(?p6 + 1, ?g2)"] s3 s45678
    by (simp add: ngroups_def del: run.simps)
  have s2: "\<exists>zs. run ?A 0 txt (?p0, []) = (?p1, []) # zs"
    using d0 name by (auto simp: lit_at_prefix)
  have s2_8: "\<exists>zs. run (Seq ?A (Seq ?S (Seq (Lit ''='') (Seq ?S (Seq ?G1 (Seq ?G2 (Backref 1))))))) 0 txt (?p0, []) =
                  (?p6 + 1, ?g2) # zs"
    using run_Seq_firstE[of ?A 0 "txt" "(?p0, [])" "(?p1, [])"
            "Seq ?S (Seq (Lit ''='') (Seq ?S (Seq ?G1 (Seq ?G2 (Backref 1)))))" "(?p6 + 1, ?g2)"]
      s2 s3_8
    by (simp add: ngroups_def del: run.simps)
  have s1: "run Bol 0 txt (?p0, []) = [(?p0, [])]"
  proof (cases "pre = []")
    case True then show ?thesis by simp
  next
    case False
    then have "last pre = CHR 0x0A" using line by simp
    moreover have "txt ! (length pre - 1) = last pre"
      using False by (simp add: shape nth_append last_conv_nth)
    ultimately show ?thesis by (simp add: shape)
  qed
  have vre: "VERSION_RE =
      Seq Bol (Seq ?A (Seq ?S (Seq (Lit ''='') (Seq ?S (Seq ?G1 (Seq ?G2 (Backref 1)))))))"
    by (simp add: VERSION_RE_def)
  show ?thesis
    unfolding vre
    using run_Seq_firstE[of Bol 0 "txt" "(?p0, [])" "(?p0, [])"
            "Seq ?A (Seq ?S (Seq (Lit ''='') (Seq ?S (Seq ?G1 (Seq ?G2 (Backref 1))))))"
            "(?p6 + 1, ?g2)"] s1 s2_8
    by (simp add: ngroups_def del: run.simps)
qed

lemma in_run_star_step:
  assumes step: "\<And>j. run a n s (j, g) =
                   (case drop j s of [] \<Rightarrow> [] | c # _ \<Rightarrow> if P c then [(Suc j, g)] else [])"
  shows "st' \<in> set (run (Star a) n s (i, g)) \<longleftrightarrow>
           (\<exists>k. st' = (i + k, g) \<and> k \<le> length (takeWhile P (drop i s)))"
proof -
  have "run (Star a) n s (i, g) =
        map (\<lambda>k. (i + k, g)) (rev [0 ..< Suc (length (takeWhile P (drop i s)))])"
    by (rule run_star_step[OF step])
  then show ?thesis by (auto simp del: run.simps)
qed

lemma in_run_Alt:
  "st' \<in> set (run (Alt a b) n s st) \<longleftrightarrow>
     st' \<in> set (run a n s st) \<or> st' \<in> set (run b (n + ngroups a) s st)"
  by simp

lemma in_run_Bol:
  "st' \<in> set (run Bol n s st) \<longleftrightarrow>
     st' = st \<and> (fst st = 0 \<or> (fst st \<le> length s \<and> s ! (fst st - 1) = CHR 0x0A))"
  by auto

lemma drop_split: "drop i s = take k (drop i s) @ drop (i + k) s"
  by (metis add.commute append_take_drop_id drop_drop)

lemma prefix_drop: "prefix w (drop i s) \<Longrightarrow> drop i s = w @ drop (i + length w) s"
  by (metis add.commute append_eq_conv_conj drop_drop prefix_def)

lemma VERSION_RE_match_assigns:
  assumes "st \<in> set (run VERSION_RE 0 txt (i, []))"
  shows "\<exists>v. assigns txt i v"
proof -
  let ?X = "Star (Seq (NotAhead (Backref 1)) Dot)"
  let ?G1 = "Group None (CSet [CHR 0x22, CHR 0x27])"
  let ?G2 = "Group None ?X"
  let ?S = "Star (Lit '' '')"
  let ?A = "Alt (Lit ''__version__'') (Lit ''version'')"
  let ?R6 = "Seq ?G2 (Backref 1)"
  let ?R5 = "Seq ?G1 ?R6"
  let ?R4 = "Seq ?S ?R5"
  let ?R3 = "Seq (Lit ''='') ?R4"
  let ?R2 = "Seq ?S ?R3"
  let ?R1 = "Seq ?A ?R2"
  have vre: "VERSION_RE = Seq Bol ?R1" by (simp add: VERSION_RE_def)
  have ng: "ngroups Bol = 0" "ngroups ?A = 0" "ngroups ?S = 0" "ngroups (Lit ''='') = 0"
    "ngroups ?G1 = 1" "ngroups ?G2 = 1"
    by (simp_all add: ngroups_def)
  from assms obtain x1 where x1: "x1 \<in> set (run Bol 0 txt (i, []))"
    and r1: "st \<in> set (run ?R1 0 txt x1)"
    unfolding vre in_run_Seq[of st Bol] ng by (auto simp del: run.simps)
  from x1 have x1': "x1 = (i, [])" and line: "i = 0 \<or> txt ! (i - 1) = CHR 0x0A"
    unfolding in_run_Bol by (auto simp del: run.simps)
  from r1 obtain x2 where x2: "x2 \<in> set (run ?A 0 txt (i, []))"
    and r2: "st \<in> set (run ?R2 0 txt x2)"
    unfolding x1' in_run_Seq[of st ?A] ng by (auto simp del: run.simps)
  from x2 obtain nm where nm: "nm = ''__version__'' \<or> nm = ''version''"
    "prefix nm (drop i txt)" "x2 = (i + length nm, [])"
    unfolding in_run_Alt in_run_Lit by blast
  let ?p1 = "i + length nm"
  have d0: "drop i txt = nm @ drop ?p1 txt" using nm(2) by (rule prefix_drop)
  from r2 obtain x3 where x3: "x3 \<in> set (run ?S 0 txt (?p1, []))"
    and r3: "st \<in> set (run ?R3 0 txt x3)"
    unfolding nm(3) in_run_Seq[of st ?S] ng by (auto simp del: run.simps)
  from x3 obtain k1 where k1: "x3 = (?p1 + k1, [])"
    "k1 \<le> length (takeWhile (\<lambda>c. c = CHR '' '') (drop ?p1 txt))"
    unfolding in_run_star_step[OF run_Lit1_step] by blast
  let ?p2 = "?p1 + k1"
  let ?s1 = "take k1 (drop ?p1 txt)"
  have s1: "set ?s1 \<subseteq> {CHR '' ''}" using take_takeWhile[OF k1(2)] by auto
  have d1: "drop ?p1 txt = ?s1 @ drop ?p2 txt" by (rule drop_split)
  from r3 obtain x4 where x4: "x4 \<in> set (run (Lit ''='') 0 txt (?p2, []))"
    and r4: "st \<in> set (run ?R4 0 txt x4)"
    unfolding k1(1) in_run_Seq[of st "Lit ''=''"] ng by (auto simp del: run.simps)
  from x4 have eq: "prefix ''='' (drop ?p2 txt)" and x4': "x4 = (?p2 + length ''='', [])"
    unfolding in_run_Lit by blast+
  let ?p3 = "?p2 + length ''=''"
  have d2: "drop ?p2 txt = ''='' @ drop ?p3 txt" using eq by (rule prefix_drop)
  from r4 obtain x5 where x5: "x5 \<in> set (run ?S 0 txt (?p3, []))"
    and r5: "st \<in> set (run ?R5 0 txt x5)"
    unfolding x4' in_run_Seq[of st ?S] ng by (auto simp del: run.simps)
  from x5 obtain k2 where k2: "x5 = (?p3 + k2, [])"
    "k2 \<le> length (takeWhile (\<lambda>c. c = CHR '' '') (drop ?p3 txt))"
    unfolding in_run_star_step[OF run_Lit1_step] by blast
  let ?p4 = "?p3 + k2"
  let ?s2 = "take k2 (drop ?p3 txt)"
  have s2: "set ?s2 \<subseteq> {CHR '' ''}" using take_takeWhile[OF k2(2)] by auto
  have d3: "drop ?p3 txt = ?s2 @ drop ?p4 txt" by (rule drop_split)
  from r5 obtain x6 where x6: "x6 \<in> set (run ?G1 0 txt (?p4, []))"
    and r6: "st \<in> set (run ?R6 1 txt x6)"
    unfolding k2(1) in_run_Seq[of st ?G1] ng by (auto simp del: run.simps)
  from x6 obtain c6 where c6: "c6 \<in> set (run (CSet [CHR 0x22, CHR 0x27]) (Suc 0) txt (?p4, []))"
    and x6c: "x6 = (fst c6, (Suc 0, ?p4, fst c6) # snd c6)"
    unfolding in_run_Group by (auto simp del: run.simps)
  from c6 obtain q r where q: "drop ?p4 txt = q # r" "q = CHR 0x22 \<or> q = CHR 0x27"
    and c6': "c6 = (Suc ?p4, [])"
    unfolding in_run_CSet by auto
  have x6': "x6 = (Suc ?p4, [(1, ?p4, Suc ?p4)])" using x6c c6' by simp
  let ?g1 = "[(1, ?p4, Suc ?p4)]"
  have r': "r = drop (Suc ?p4) txt" using q(1) by (metis drop_Suc_of_Cons)
  from r6 obtain x7 where x7: "x7 \<in> set (run ?G2 1 txt (Suc ?p4, ?g1))"
    and r7: "st \<in> set (run (Backref 1) 2 txt x7)"
    unfolding x6' in_run_Seq[of st ?G2] ng by (auto simp: numeral_2_eq_2 simp del: run.simps)
  from x7 obtain y where y: "y \<in> set (run ?X 2 txt (Suc ?p4, ?g1))"
    and x7': "x7 = (fst y, (2, Suc ?p4, fst y) # snd y)"
    unfolding in_run_Group by (auto simp: numeral_2_eq_2 simp del: run.simps)
  have g1: "map_of ?g1 1 = Some (?p4, Suc ?p4)" by simp
  from y obtain k where k: "y = (Suc ?p4 + k, ?g1)"
    "k \<le> length (takeWhile (\<lambda>c. c \<noteq> q \<and> c \<noteq> CHR 0x0A) (drop (Suc ?p4) txt))"
    unfolding in_run_star_step[OF quote_step[OF g1 q(1)]] by blast
  let ?p6 = "Suc ?p4 + k"
  let ?v = "take k (drop (Suc ?p4) txt)"
  have v: "q \<notin> set ?v" "CHR 0x0A \<notin> set ?v" using take_takeWhile[OF k(2)] by auto
  have d5: "drop (Suc ?p4) txt = ?v @ drop ?p6 txt" by (rule drop_split)
  have sl: "slice txt ?p4 (Suc ?p4) = [q]" using q(1) by (simp add: slice_def)
  have "st \<in> set (run (Backref 1) 2 txt (?p6, (2, Suc ?p4, ?p6) # ?g1))"
    using r7 unfolding x7' k(1) by simp
  then have "prefix [q] (drop ?p6 txt)"
    using sl by (simp add: lit_at_prefix split: if_splits)
  then have d6: "drop ?p6 txt = [q] @ drop (?p6 + length [q]) txt" by (rule prefix_drop)
  have "drop i txt = nm @ ?s1 @ ''='' @ ?s2 @ q # ?v @ q # drop (?p6 + length [q]) txt"
    using d0 d1 d2 d3 q(1) r' d5 d6 by (metis append_Cons append_Nil)
  then show ?thesis
    unfolding assigns_def using line nm(1) s1 s2 q(2) v by blast
qed

lemma assignsI:
  assumes "i = 0 \<or> txt ! (i - 1) = CHR 0x0A"
    "drop i txt = nm @ s1 @ ''='' @ s2 @ q # v @ q # r"
    "nm = ''__version__'' \<or> nm = ''version''"
    "set s1 \<subseteq> {CHR '' ''}" "set s2 \<subseteq> {CHR '' ''}"
    "q = CHR 0x22 \<or> q = CHR 0x27" "q \<notin> set v" "CHR 0x0A \<notin> set v"
  shows "assigns txt i v"
  unfolding assigns_def using assms by blast

lemma assigns_prefix:
  assumes "assigns txt i v"
  shows "prefix ''__version__'' (drop i txt) \<or> prefix ''version'' (drop i txt)"
  using assms unfolding assigns_def by (auto simp: prefix_def)


lemma Parser_find_version_eq:
  "Parser_find_version self ctx version_file version = find_version ctx version_file version"
  by (simp add: Parser_find_version_def find_version_def)


text \<open>
  Claim C8. Let the text of the version file have an assignment of a value at
  position \<open>i\<close> (at the start of a line: the name \<open>__version__\<close> or \<open>version\<close>, spaces, \<open>=\<close>,
  spaces and the value between two equal quotes, both double or both single, the
  value without that quote and without a line break), and none at an earlier position.
  Then \<open>find_version\<close>, called with the version file and no version, returns exactly
  the value: the result does not depend on which of the two quotes delimits it. For
  the content \<open>version = "2.1.0"\<close> it returns \<open>2.1.0\<close>. The method of the class returns the
  same.
\<close>

theorem find_version_assignment:
  assumes vfile: "version_file \<noteq> []" "ctx_root ctx version_file = Some txt"
    and here: "assigns txt i value"
    and earlier: "\<forall>j<i. \<forall>v. \<not> assigns txt j v"
  shows "find_version ctx version_file [] = Inr (Some value) \<and>
         Parser_find_version self ctx version_file [] = Inr (Some value) \<and>
         find_version
           \<lparr>ctx_root = [''version.py'' \<mapsto> ''version = '' @ [CHR 0x22] @ ''2.1.0'' @ [CHR 0x22]],
            ctx_version = []\<rparr> ''version.py'' [] = Inr (Some ''2.1.0'')"
proof -
  from here obtain nm s1 s2 q r where
    line: "i = 0 \<or> txt ! (i - 1) = CHR 0x0A"
    and d: "drop i txt = nm @ s1 @ ''='' @ s2 @ q # value @ q # r"
    and nm: "nm = ''__version__'' \<or> nm = ''version''"
    and sp: "set s1 \<subseteq> {CHR '' ''}" "set s2 \<subseteq> {CHR '' ''}"
    and q: "q = CHR 0x22 \<or> q = CHR 0x27"
    and val: "q \<notin> set value" "CHR 0x0A \<notin> set value"
    unfolding assigns_def by blast
  let ?pre = "take i txt"
  have lt: "i < length txt"
  proof (rule ccontr)
    assume "\<not> i < length txt"
    then have "drop i txt = []" by simp
    then show False using d by simp
  qed
  then have len: "length ?pre = i" by simp
  have shape: "txt = ?pre @ nm @ s1 @ ''='' @ s2 @ q # value @ q # r"
    using d by (metis append_take_drop_id)
  have pre: "?pre = [] \<or> last ?pre = CHR 0x0A"
  proof (cases "i = 0")
    case True then show ?thesis by simp
  next
    case False
    then have "?pre \<noteq> []" using lt by auto
    then have "last ?pre = ?pre ! (i - 1)" using len by (metis last_conv_nth)
    also have "\<dots> = txt ! (i - 1)" using False by simp
    finally show ?thesis using line False by simp
  qed
  define p4 where "p4 = i + length nm + length s1 + 1 + length s2"
  obtain zs where first:
    "run VERSION_RE 0 txt (i, []) =
       (Suc p4 + length value + 1, [(2, Suc p4, Suc p4 + length value), (1, p4, Suc p4)]) # zs"
    using VERSION_RE_at_assignment[OF shape pre nm sp q val] unfolding p4_def len by blast
  have none: "\<forall>j. 0 \<le> j \<and> j < i \<longrightarrow> run VERSION_RE 0 txt (j, []) = []"
  proof (intro allI impI)
    fix j assume j: "0 \<le> j \<and> j < i"
    show "run VERSION_RE 0 txt (j, []) = []"
    proof (rule ccontr)
      assume "run VERSION_RE 0 txt (j, []) \<noteq> []"
      then obtain st where "st \<in> set (run VERSION_RE 0 txt (j, []))"
        by (meson last_in_set)
      then have "\<exists>v. assigns txt j v" by (rule VERSION_RE_match_assigns)
      then show False using earlier j by blast
    qed
  qed
  have le: "i \<le> length txt" using lt by simp
  have search: "re_search VERSION_RE txt 0 =
     Some \<lparr>m_start = i, m_end = Suc p4 + length value + 1,
           m_groups = [(2, Suc p4, Suc p4 + length value), (1, p4, Suc p4)]\<rparr>"
    using re_search_first[OF _ le none first] by simp
  have "drop (Suc p4) (?pre @ nm @ s1 @ ''='' @ s2 @ q # value @ q # r) = value @ (q # r)"
    using lt by (simp add: p4_def min_def)
  then have "drop (Suc p4) txt = value @ (q # r)"
    unfolding shape[symmetric] .
  then have sl: "slice txt (Suc p4) (Suc p4 + length value) = value"
    by (simp add: slice_def)
  have grp: "m_group VERSION_RE txt
               \<lparr>m_start = i, m_end = Suc p4 + length value + 1,
                m_groups = [(2, Suc p4, Suc p4 + length value), (1, p4, Suc p4)]\<rparr> (GNum 2) =
             Inr (Some value)"
    using sl by (simp add: m_group_def group_number_def ngroups_def VERSION_RE_def)
  have fv: "find_version ctx version_file [] = Inr (Some value)"
    using vfile search grp by (simp add: find_version_def read_file_def)
  have ex: "find_version
           \<lparr>ctx_root = [''version.py'' \<mapsto> ''version = '' @ [CHR 0x22] @ ''2.1.0'' @ [CHR 0x22]],
            ctx_version = []\<rparr> ''version.py'' [] = Inr (Some ''2.1.0'')"
    by (simp add: find_version_def read_file_def VERSION_RE_def eval_defs)
  show ?thesis using fv ex by (simp add: Parser_find_version_eq)
qed

theorem find_version_assignment_witness:
  "find_version
     \<lparr>ctx_root = [''v.py'' \<mapsto> ''# c\<newline>__version__ =  '' @ [CHR 0x27] @ ''2.1.0'' @ [CHR 0x27] @ ''\<newline>''],
      ctx_version = []\<rparr> ''v.py'' [] = Inr (Some ''2.1.0'') \<and>
   find_version
     \<lparr>ctx_root = [''v.py'' \<mapsto> ''# c\<newline>__version__ =  '' @ [CHR 0x22] @ ''2.1.0'' @ [CHR 0x22] @ ''\<newline>''],
      ctx_version = []\<rparr> ''v.py'' [] = Inr (Some ''2.1.0'')"
proof -
  have w: "find_version
     \<lparr>ctx_root = [''v.py'' \<mapsto> ''# c\<newline>__version__ =  '' @ [q] @ ''2.1.0'' @ [q] @ ''\<newline>''],
      ctx_version = []\<rparr> ''v.py'' [] = Inr (Some ''2.1.0'')"
    if q: "q = CHR 0x22 \<or> q = CHR 0x27" for q
  proof -
    let ?t = "''# c\<newline>__version__ =  '' @ [q] @ ''2.1.0'' @ [q] @ ''\<newline>''"
    have q1: "q \<notin> set ''2.1.0''" using q by auto
    have here: "assigns ?t 4 ''2.1.0''"
    proof (rule assignsI[where nm = "''__version__''" and ?s1.0 = "'' ''" and ?s2.0 = "''  ''"
             and q = q and r = "''\<newline>''"])
      show "q \<notin> set ''2.1.0''" by (rule q1)
    qed (use q in simp_all)
    have earlier: "\<forall>j<4. \<forall>v. \<not> assigns ?t j v"
    proof (intro allI impI notI)
      fix j :: nat and v
      assume "j < 4" and "assigns ?t j v"
      then have p: "prefix ''__version__'' (drop j ?t) \<or> prefix ''version'' (drop j ?t)"
        using assigns_prefix by blast
      from \<open>j < 4\<close> consider "j = 0" | "j = 1" | "j = 2" | "j = 3" by fastforce
      then show False using p by cases simp_all
    qed
    show ?thesis
      using find_version_assignment[of "''v.py''"
              "\<lparr>ctx_root = [''v.py'' \<mapsto> ?t], ctx_version = []\<rparr>" ?t 4 "''2.1.0''",
              OF _ _ here earlier]
      by simp
  qed
  show ?thesis using w[of "CHR 0x27"] w[of "CHR 0x22"] by simp
qed

section \<open>The git reference check\<close>

text \<open>
  Claim C7. \<open>check_head\<close> does nothing for an absent or empty reference. For every other
  reference that does not begin with \<open>refs/tags/\<close> it fails with the "doesn't point at a
  tag" error. For a reference \<open>refs/tags/\<close> followed by a tag it succeeds exactly when the
  tag is the version or \<open>v\<close> followed by the version, and fails with the tag mismatch
  error otherwise. The three examples of the specification come out as stated, and the
  method of the class behaves as the function.
\<close>

theorem check_head_outcomes:
  "check_head version None = Inr () \<and>
   check_head version (Some []) = Inr () \<and>
   (\<forall>h. h \<noteq> [] \<and> \<not> prefix ''refs/tags/'' h \<longrightarrow>
        check_head version (Some h) = Inl (ValueError (HeadNotATag h))) \<and>
   (\<forall>tag. check_head version (Some (''refs/tags/'' @ tag)) =
        (if tag = version \<or> tag = ''v'' @ version then Inr ()
         else Inl (ValueError (TagMismatch tag version)))) \<and>
   check_head ''1.2.3'' (Some ''refs/tags/v1.2.3'') = Inr () \<and>
   check_head ''1.2.3'' (Some ''refs/heads/main'') =
     Inl (ValueError (HeadNotATag ''refs/heads/main'')) \<and>
   check_head ''1.2.3'' (Some ''refs/tags/1.2.4'') =
     Inl (ValueError (TagMismatch ''1.2.4'' ''1.2.3'')) \<and>
   Parser_check_head self version head = check_head version head"
  by (simp add: check_head_def Parser_check_head_eq)

theorem check_head_outcomes_witness:
  "''refs/heads/v1.2.3'' \<noteq> [] \<and> \<not> prefix ''refs/tags/'' ''refs/heads/v1.2.3'' \<and>
   check_head ''1.2.3'' (Some ''refs/heads/v1.2.3'') =
     Inl (ValueError (HeadNotATag ''refs/heads/v1.2.3'')) \<and>
   check_head ''1.2.3'' (Some ''refs/tags/1.2.3'') = Inr () \<and>
   check_head ''1.2.3'' (Some ''refs/tags/v1.2'') =
     Inl (ValueError (TagMismatch ''v1.2'' ''1.2.3''))"
  using check_head_outcomes [of "''1.2.3''" "\<lparr>self_changes_file = [], self_name = Lit []\<rparr>" None]
  by simp

section \<open>The version comparison\<close>

text \<open>
  Claim C2. Two version strings with the same text pass. Two strings with different
  texts, both accepted by the version parser: when the declared version is strictly
  smaller than the found one, the failure is the "older" message (with the hint to push
  a git tag with the latest version); when it is strictly greater, the failure is the
  "younger" message (with the hint to run towncrier again). The method of the class
  does the same with its own changes file.
\<close>

theorem check_changes_version_outcomes:
  fixes parse_version :: "string \<Rightarrow> 'v::order option"
  shows
  "check_changes_version parse_version declared declared changes_file = Inr () \<and>
   (declared \<noteq> found \<and> parse_version declared = Some dver \<and> parse_version found = Some fver \<and>
      dver < fver \<longrightarrow>
      check_changes_version parse_version declared found changes_file =
        Inl (ValueError (DistributionOlder declared found changes_file))) \<and>
   (declared \<noteq> found \<and> parse_version declared = Some dver \<and> parse_version found = Some fver \<and>
      fver < dver \<longrightarrow>
      check_changes_version parse_version declared found changes_file =
        Inl (ValueError (DistributionYounger declared found changes_file))) \<and>
   Parser_check_changes_version parse_version self declared found =
     check_changes_version parse_version declared found (self_changes_file self)"
  by (auto simp: check_changes_version_def Parser_check_changes_version_eq
        dest: less_asym)

theorem check_changes_version_outcomes_witness:
  "''0.9.0'' \<noteq> ''1.0.0'' \<and> release_version ''0.9.0'' = Some [0, 9] \<and>
   release_version ''1.0.0'' = Some [1] \<and> [0, 9] < [1::nat] \<and>
   check_changes_version release_version ''0.9.0'' ''1.0.0'' ''CHANGES.md'' =
     Inl (ValueError (DistributionOlder ''0.9.0'' ''1.0.0'' ''CHANGES.md'')) \<and>
   check_changes_version release_version ''1.0.0'' ''0.9.0'' ''CHANGES.md'' =
     Inl (ValueError (DistributionYounger ''1.0.0'' ''0.9.0'' ''CHANGES.md''))"
  using check_changes_version_outcomes
          [of release_version "''0.9.0''" "''CHANGES.md''" "''1.0.0''" "[0, 9]" "[1]"
              "\<lparr>self_changes_file = [], self_name = Lit []\<rparr>"]
        check_changes_version_outcomes
          [of release_version "''1.0.0''" "''CHANGES.md''" "''0.9.0''" "[1]" "[0, 9]"
              "\<lparr>self_changes_file = [], self_name = Lit []\<rparr>"]
  by (simp add: release_version_simps)

text \<open>
  Claim C3. Two version strings with different texts never pass: the check returns
  normally exactly when the texts are equal. When the texts differ and both parse to
  the same value, the strict comparison is false and the failure is the one of the
  \<open>else\<close> branch, the "younger" message.
\<close>

theorem check_changes_version_raw_equality:
  fixes parse_version :: "string \<Rightarrow> 'v::order option"
  shows
  "(check_changes_version parse_version declared found changes_file = Inr ()
      \<longleftrightarrow> declared = found) \<and>
   (declared \<noteq> found \<longrightarrow>
      (\<exists>e. check_changes_version parse_version declared found changes_file = Inl e)) \<and>
   (declared \<noteq> found \<and> parse_version declared = Some ver \<and> parse_version found = Some ver \<longrightarrow>
      check_changes_version parse_version declared found changes_file =
        Inl (ValueError (DistributionYounger declared found changes_file))) \<and>
   (Parser_check_changes_version parse_version self declared found = Inr ()
      \<longleftrightarrow> declared = found)"
  by (auto simp: check_changes_version_def Parser_check_changes_version_eq
        split: option.splits)

theorem check_changes_version_raw_equality_witness:
  "''1.0'' \<noteq> ''1.0.0'' \<and> release_version ''1.0'' = Some [1] \<and>
   release_version ''1.0.0'' = Some [1] \<and>
   check_changes_version release_version ''1.0'' ''1.0.0'' ''CHANGES.md'' =
     Inl (ValueError (DistributionYounger ''1.0'' ''1.0.0'' ''CHANGES.md''))"
  using check_changes_version_raw_equality
          [of release_version "''1.0''" "''1.0.0''" "''CHANGES.md''" "[1]"
              "\<lparr>self_changes_file = [], self_name = Lit []\<rparr>"]
  by (simp add: release_version_simps)

end
